theory Spec2Isabelle
  imports Main "HOL-Library.Word"
begin

section \<open>Military time clock: data model\<close>

text \<open>
  The program of \<^verbatim>\<open>src/clock_sdcc/src/main.c\<close> is compiled with SDCC for an 8051:
  \<^verbatim>\<open>uint8_t\<close> is an 8-bit and \<^verbatim>\<open>uint16_t\<close> a 16-bit unsigned integer, and \<^verbatim>\<open>int\<close> has
  16 bits, so that the difference of two \<^verbatim>\<open>uint16_t\<close> values is computed modulo 65536.
  Both are modelled as machine words: addition and subtraction wrap around, comparisons
  are unsigned.
\<close>

type_synonym uint8_t = "8 word"
type_synonym uint16_t = "16 word"

definition ON :: uint8_t where "ON = 1"
definition OFF :: uint8_t where "OFF = 0"
definition MIN_DELAY :: uint8_t where "MIN_DELAY = 75"
definition INIT_DELAY :: uint8_t where "INIT_DELAY = 125"
definition RAMP_DELAY :: uint8_t where "RAMP_DELAY = 5"
definition TONE_TIME :: uint16_t where "TONE_TIME = 250"

text \<open>\<^verbatim>\<open>struct time\<close>: the four decimal digits of a time of day.\<close>

record time =
  one_minutes :: uint8_t
  ten_minutes :: uint8_t
  one_hours :: uint8_t
  ten_hours :: uint8_t

text \<open>
  The five switch inputs of port 3, as the level of the pin: a switch is pressed when its
  pin reads low, so the source tests \<^verbatim>\<open>!SWITCH\<close> for a press. One record is one sample of
  the pins; an interrupt routine reads the same sample at each of its tests.
\<close>

record pins =
  HOUR_SWITCH :: bool
  MINUTE_SWITCH :: bool
  ALARM_SWITCH :: bool
  SET_T_SWITCH :: bool
  SET_A_SWITCH :: bool

text \<open>
  The global variables, and the alarm LED pin the millisecond routine drives. The
  reload registers of the two hardware timers, which both routines rewrite with
  constants, are not program variables and are left out.
\<close>

record clock =
  digitSelect :: uint8_t
  switchTimeout :: uint8_t
  initTimeout :: uint8_t
  milliseconds :: uint16_t
  prev_milliseconds :: uint16_t
  seconds :: uint8_t
  gs_timeKeeper :: time
  gs_alarmKeeper :: time
  alarm_on_off :: uint8_t
  alarm_tone :: uint8_t
  ALARM_LED :: bool

definition zero_time :: time where
  "zero_time = \<lparr>one_minutes = 0, ten_minutes = 0, one_hours = 0, ten_hours = 0\<rparr>"

text \<open>The initialisers of the globals; \<^verbatim>\<open>main\<close> writes 0xBF to port 1, whose bit 7 is the LED pin.\<close>

definition initial_clock :: clock where
  "initial_clock =
     \<lparr>digitSelect = 1, switchTimeout = 0, initTimeout = INIT_DELAY, milliseconds = 0,
      prev_milliseconds = 0, seconds = 0, gs_timeKeeper = zero_time,
      gs_alarmKeeper = zero_time, alarm_on_off = OFF, alarm_tone = 0, ALARM_LED = True\<rparr>"

section \<open>The millisecond routine \<^verbatim>\<open>control_isr\<close>\<close>

text \<open>Lines 248 to 264: the alarm on/off switch is pressed.\<close>

definition alarm_switch_pressed :: "clock \<Rightarrow> clock" where
  "alarm_switch_pressed s0 =
     (let s1 = s0\<lparr>switchTimeout :=
                   (if switchTimeout s0 > MIN_DELAY then switchTimeout s0
                    else switchTimeout s0 + 1)\<rparr>
      in if switchTimeout s1 = MIN_DELAY
         then (let s2 = s1\<lparr>alarm_on_off := (if alarm_on_off s1 = ON then OFF else ON)\<rparr>;
                   s3 = s2\<lparr>ALARM_LED := (alarm_on_off s2 = 0)\<rparr>
               in if alarm_on_off s3 = OFF
                  then s3\<lparr>prev_milliseconds := 0, alarm_tone := 0\<rparr>
                  else s3)
         else s1)"

text \<open>
  Lines 282 to 285 and 337 to 340: the two additions of an accepted press, one for the
  minute switch and one for the hour switch.
\<close>

definition add_pressed :: "pins \<Rightarrow> time \<Rightarrow> time" where
  "add_pressed p t0 =
     (let t1 = t0\<lparr>one_minutes := one_minutes t0 + (if MINUTE_SWITCH p then 0 else 1)\<rparr>
      in t1\<lparr>one_hours := one_hours t1 + (if HOUR_SWITCH p then 0 else 1)\<rparr>)"

text \<open>Lines 288 to 309: the carries of the alarm time after an accepted press.\<close>

definition alarm_set_rollover :: "time \<Rightarrow> time" where
  "alarm_set_rollover t0 =
     (let t1 = (if one_minutes t0 > 9
                then t0\<lparr>ten_minutes := ten_minutes t0 + 1, one_minutes := 0\<rparr> else t0);
          t2 = (if ten_minutes t1 > 5 then t1\<lparr>ten_minutes := 0\<rparr> else t1);
          t3 = (if one_hours t2 > 9
                then t2\<lparr>ten_hours := ten_hours t2 + 1, one_hours := 0\<rparr> else t2)
      in if ten_hours t3 \<ge> 2 \<and> one_hours t3 \<ge> 4
         then t3\<lparr>ten_hours := 0, one_hours := 0\<rparr> else t3)"

text \<open>Lines 270 to 319: the alarm set switch is pressed.\<close>

definition alarm_set_pressed :: "pins \<Rightarrow> clock \<Rightarrow> clock" where
  "alarm_set_pressed p s0 =
     (let s1 = s0\<lparr>switchTimeout := switchTimeout s0 + 1\<rparr>;
          s2 = (if MINUTE_SWITCH p \<and> HOUR_SWITCH p
                then s1\<lparr>initTimeout := INIT_DELAY\<rparr> else s1)
      in if (\<not> MINUTE_SWITCH p \<or> \<not> HOUR_SWITCH p) \<and> switchTimeout s2 > initTimeout s2
         then (let s3 = s2\<lparr>gs_alarmKeeper := alarm_set_rollover (add_pressed p (gs_alarmKeeper s2))\<rparr>;
                   s4 = s3\<lparr>switchTimeout := 0\<rparr>
               in if initTimeout s4 > MIN_DELAY
                  then s4\<lparr>initTimeout := initTimeout s4 - RAMP_DELAY\<rparr> else s4)
         else s2)"

text \<open>Lines 343 to 364: the carries of the time of day after an accepted press.\<close>

definition time_set_rollover :: "time \<Rightarrow> time" where
  "time_set_rollover t0 =
     (let t1 = (if one_minutes t0 > 9
                then t0\<lparr>ten_minutes := ten_minutes t0 + 1, one_minutes := 0\<rparr> else t0);
          t2 = (if ten_minutes t1 > 5 then t1\<lparr>ten_minutes := 0\<rparr> else t1);
          t3 = (if one_hours t2 > 9
                then t2\<lparr>ten_hours := ten_hours t2 + 1, one_hours := 0\<rparr> else t2)
      in if ten_hours t3 \<ge> 2 \<and> one_hours t3 \<ge> 4
         then t3\<lparr>ten_hours := 0, one_hours := 0\<rparr> else t3)"

text \<open>Lines 325 to 374: the time set switch is pressed.\<close>

definition time_set_pressed :: "pins \<Rightarrow> clock \<Rightarrow> clock" where
  "time_set_pressed p s0 =
     (let s1 = s0\<lparr>switchTimeout := switchTimeout s0 + 1\<rparr>;
          s2 = (if MINUTE_SWITCH p \<and> HOUR_SWITCH p
                then s1\<lparr>initTimeout := INIT_DELAY\<rparr> else s1)
      in if (\<not> MINUTE_SWITCH p \<or> \<not> HOUR_SWITCH p) \<and> switchTimeout s2 > initTimeout s2
         then (let s3 = s2\<lparr>gs_timeKeeper := time_set_rollover (add_pressed p (gs_timeKeeper s2))\<rparr>;
                   s4 = s3\<lparr>switchTimeout := 0\<rparr>
               in if initTimeout s4 > MIN_DELAY
                  then s4\<lparr>initTimeout := initTimeout s4 - RAMP_DELAY\<rparr> else s4)
         else s2)"

text \<open>Lines 384 to 391: the tone changes every \<^verbatim>\<open>TONE_TIME\<close> milliseconds while it sounds.\<close>

definition tone_sequence :: "clock \<Rightarrow> clock" where
  "tone_sequence s =
     (if alarm_tone s \<noteq> 0
      then (if milliseconds s - prev_milliseconds s > TONE_TIME
            then s\<lparr>prev_milliseconds := milliseconds s,
                   alarm_tone := (if alarm_tone s \<le> 1 then 7 else alarm_tone s - 1)\<rparr>
            else s)
      else s)"

definition control_isr :: "pins \<Rightarrow> clock \<Rightarrow> clock" where
  "control_isr p s0 =
     (let s1 = s0\<lparr>milliseconds := milliseconds s0 + 1\<rparr>;
          s2 = (if \<not> ALARM_SWITCH p then alarm_switch_pressed s1
                else if \<not> SET_A_SWITCH p then alarm_set_pressed p s1
                else if \<not> SET_T_SWITCH p then time_set_pressed p s1
                else s1\<lparr>switchTimeout := 0, initTimeout := INIT_DELAY\<rparr>);
          s3 = tone_sequence s2
      in s3\<lparr>digitSelect := (if digitSelect s3 < push_bit 3 1
                             then push_bit 1 (digitSelect s3) else 1)\<rparr>)"

section \<open>The seconds routine \<^verbatim>\<open>timer_isr\<close>\<close>

text \<open>Lines 426 to 451: the carries of the time of day, after the seconds were counted.\<close>

definition timer_rollover :: "time \<Rightarrow> time" where
  "timer_rollover t0 =
     (let t1 = (if one_minutes t0 > 9
                then t0\<lparr>ten_minutes := ten_minutes t0 + 1, one_minutes := 0\<rparr> else t0);
          t2 = (if ten_minutes t1 > 5
                then t1\<lparr>one_hours := one_hours t1 + 1, ten_minutes := 0\<rparr> else t1);
          t3 = (if one_hours t2 > 9
                then t2\<lparr>ten_hours := ten_hours t2 + 1, one_hours := 0\<rparr> else t2)
      in if ten_hours t3 \<ge> 2 \<and> one_hours t3 \<ge> 4
         then t3\<lparr>ten_hours := 0, one_hours := 0\<rparr> else t3)"

text \<open>Lines 454 to 471: the alarm starts and stops the tone.\<close>

definition alarm_check :: "clock \<Rightarrow> clock" where
  "alarm_check s0 =
     (if alarm_on_off s0 = ON
      then (if ten_hours (gs_alarmKeeper s0) = ten_hours (gs_timeKeeper s0)
               \<and> one_hours (gs_alarmKeeper s0) = one_hours (gs_timeKeeper s0)
               \<and> ten_minutes (gs_alarmKeeper s0) = ten_minutes (gs_timeKeeper s0)
               \<and> one_minutes (gs_alarmKeeper s0) = one_minutes (gs_timeKeeper s0)
            then (let s1 = (if seconds s0 = 0
                            then s0\<lparr>prev_milliseconds := milliseconds s0, alarm_tone := 7\<rparr>
                            else s0)
                  in if seconds s1 \<ge> 59
                     then s1\<lparr>prev_milliseconds := 0, alarm_tone := 0\<rparr> else s1)
            else s0)
      else s0)"

text \<open>Lines 416 to 451: the second is counted and carried into the time of day.\<close>

definition timer_count :: "clock \<Rightarrow> clock" where
  "timer_count s0 =
     (let s1 = s0\<lparr>seconds := seconds s0 + 1\<rparr>;
          s2 = (if seconds s1 > 59
                then s1\<lparr>gs_timeKeeper := (gs_timeKeeper s1)
                           \<lparr>one_minutes := one_minutes (gs_timeKeeper s1) + 1\<rparr>,
                        seconds := 0\<rparr>
                else s1)
      in s2\<lparr>gs_timeKeeper := timer_rollover (gs_timeKeeper s2)\<rparr>)"

definition timer_isr :: "pins \<Rightarrow> clock \<Rightarrow> clock" where
  "timer_isr p s0 =
     (if \<not> SET_T_SWITCH p then s0\<lparr>seconds := 0\<rparr>
      else alarm_check (timer_count s0))"

section \<open>Runs of the two routines\<close>

text \<open>
  The two routines are the only writers of the time of day, the alarm time and the
  switch counters. A run is a sequence of their invocations, each with its own sample of
  the pins and each carried to its end before the next one starts; a seconds interrupt
  that preempts the millisecond routine half way is not part of the model.
\<close>

datatype event = Millisecond pins | Second pins

fun step :: "event \<Rightarrow> clock \<Rightarrow> clock" where
  "step (Millisecond p) s = control_isr p s"
| "step (Second p) s = timer_isr p s"

fun run :: "event list \<Rightarrow> clock \<Rightarrow> clock" where
  "run [] s = s"
| "run (e # es) s = run es (step e s)"

fun ticks :: "event list \<Rightarrow> nat" where
  "ticks [] = 0"
| "ticks (Millisecond p # es) = Suc (ticks es)"
| "ticks (Second p # es) = ticks es"

section \<open>Vocabulary of the properties\<close>

text \<open>A sample of the pins with no switch pressed, and a time of day written HH:MM.\<close>

definition released :: pins where
  "released = \<lparr>HOUR_SWITCH = True, MINUTE_SWITCH = True, ALARM_SWITCH = True,
                SET_T_SWITCH = True, SET_A_SWITCH = True\<rparr>"

definition hhmm :: "uint8_t \<Rightarrow> uint8_t \<Rightarrow> uint8_t \<Rightarrow> uint8_t \<Rightarrow> time" where
  "hhmm th oh tm om = \<lparr>one_minutes = om, ten_minutes = tm, one_hours = oh, ten_hours = th\<rparr>"

text \<open>The digit ranges of a time of day, and a time of day before 24:00.\<close>

definition time_ok :: "time \<Rightarrow> bool" where
  "time_ok t =
     (0 \<le> one_minutes t \<and> one_minutes t \<le> 9 \<and> 0 \<le> ten_minutes t \<and> ten_minutes t \<le> 5
      \<and> 0 \<le> one_hours t \<and> one_hours t \<le> 9
      \<and> \<not> (ten_hours t \<ge> 2 \<and> one_hours t \<ge> 4))"

definition before_midnight :: "time \<Rightarrow> bool" where
  "before_midnight t = (time_ok t \<and> ten_hours t \<le> 2)"

text \<open>
  The rollover of the seconds engine as the specification words it, one rule after the
  other, on the pair of the seconds counter and the current time.
\<close>

definition spec_count_second :: "uint8_t \<times> time \<Rightarrow> uint8_t \<times> time" where
  "spec_count_second st =
     (let sec = fst st + 1; t = snd st
      in if sec > 59 then (0, t\<lparr>one_minutes := one_minutes t + 1\<rparr>) else (sec, t))"

definition spec_carry_minutes :: "time \<Rightarrow> time" where
  "spec_carry_minutes t =
     (if one_minutes t > 9 then t\<lparr>ten_minutes := ten_minutes t + 1, one_minutes := 0\<rparr> else t)"

definition spec_carry_ten_minutes :: "time \<Rightarrow> time" where
  "spec_carry_ten_minutes t =
     (if ten_minutes t > 5 then t\<lparr>one_hours := one_hours t + 1, ten_minutes := 0\<rparr> else t)"

definition spec_carry_hours :: "time \<Rightarrow> time" where
  "spec_carry_hours t =
     (if one_hours t > 9 then t\<lparr>ten_hours := ten_hours t + 1, one_hours := 0\<rparr> else t)"

definition spec_joint_wrap :: "time \<Rightarrow> time" where
  "spec_joint_wrap t =
     (if ten_hours t \<ge> 2 \<and> one_hours t \<ge> 4 then t\<lparr>ten_hours := 0, one_hours := 0\<rparr> else t)"

definition spec_seconds_step :: "uint8_t \<times> time \<Rightarrow> uint8_t \<times> time" where
  "spec_seconds_step st =
     (let st1 = spec_count_second st
      in (fst st1,
          spec_joint_wrap
            (spec_carry_hours (spec_carry_ten_minutes (spec_carry_minutes (snd st1))))))"

text \<open>
  A manual increment as the seconds engine would carry it, except at a full ten-minutes
  digit: there the minutes return to 00 and the hours keep their value.
\<close>

definition amended_manual_increment :: "pins \<Rightarrow> time \<Rightarrow> time" where
  "amended_manual_increment p t =
     (if \<not> MINUTE_SWITCH p \<and> one_minutes t = 9 \<and> ten_minutes t = 5
      then timer_rollover ((add_pressed p t)\<lparr>one_minutes := 0, ten_minutes := 0\<rparr>)
      else timer_rollover (add_pressed p t))"

text \<open>The time of day counted in minutes, and the state of the clock counted in seconds.\<close>

definition minutes_of_day :: "time \<Rightarrow> nat" where
  "minutes_of_day t =
     unat (one_minutes t) + 10 * unat (ten_minutes t)
       + 60 * (unat (one_hours t) + 10 * unat (ten_hours t))"

definition seconds_of_day :: "clock \<Rightarrow> nat" where
  "seconds_of_day s = unat (seconds s) + 60 * minutes_of_day (gs_timeKeeper s)"

text \<open>
  The alarm on/off switch is held during a run when every millisecond sample has it
  pressed; the flips of a run count the interrupts that change the armed flag.
\<close>

fun toggle_held :: "event \<Rightarrow> bool" where
  "toggle_held (Millisecond p) = (\<not> ALARM_SWITCH p)"
| "toggle_held (Second p) = True"

definition toggled :: "uint8_t \<Rightarrow> uint8_t" where
  "toggled a = (if a = ON then OFF else ON)"

fun flips :: "event list \<Rightarrow> clock \<Rightarrow> nat" where
  "flips [] s = 0"
| "flips (e # es) s =
     (if alarm_on_off (step e s) \<noteq> alarm_on_off s then 1 else 0) + flips es (step e s)"

text \<open>
  A millisecond interrupt acts when the guard of the toggle (line 251) or of an increment
  (lines 279 and 334) holds; the actions of a run of millisecond samples count the
  interrupts that act. Idle ticks are ticks with no switch pressed.
\<close>

definition acts :: "pins \<Rightarrow> clock \<Rightarrow> bool" where
  "acts p s =
     (if \<not> ALARM_SWITCH p
      then (if switchTimeout s > MIN_DELAY then switchTimeout s else switchTimeout s + 1) = MIN_DELAY
      else if \<not> SET_A_SWITCH p \<or> \<not> SET_T_SWITCH p
      then (\<not> MINUTE_SWITCH p \<or> \<not> HOUR_SWITCH p) \<and> switchTimeout s + 1 > initTimeout s
      else False)"

fun actions :: "pins list \<Rightarrow> clock \<Rightarrow> nat" where
  "actions [] s = 0"
| "actions (p # ps) s = (if acts p s then 1 else 0) + actions ps (control_isr p s)"

definition idle :: "nat \<Rightarrow> event list" where
  "idle n = replicate n (Millisecond released)"

text \<open>
  A sample is in a set mode when the alarm on/off switch is released and a set switch is
  pressed; an increment is held when, in a set mode, the minute or the hour switch is
  pressed. The repeat threshold moves on the values from 125 down to 75 in steps of 5.
\<close>

definition set_mode :: "pins \<Rightarrow> bool" where
  "set_mode p = (ALARM_SWITCH p \<and> (\<not> SET_A_SWITCH p \<or> \<not> SET_T_SWITCH p))"

definition increment_held :: "pins \<Rightarrow> bool" where
  "increment_held p = (set_mode p \<and> (\<not> MINUTE_SWITCH p \<or> \<not> HOUR_SWITCH p))"


text \<open>
  The alarm is due in a run of the seconds routine when the routine passes the time set
  test of line 409 and the guards of lines 454 to 456 hold: the alarm is armed and its four
  digits equal those of the time the run has just advanced. The tone is started by the
  run in which the alarm is due and the seconds stand at 0; the activations of a run of
  interrupts count these. A run stays in the same minute when none of its interrupts
  changes the current time.
\<close>

definition alarm_due :: "pins \<Rightarrow> clock \<Rightarrow> bool" where
  "alarm_due p s =
     (SET_T_SWITCH p \<and> alarm_on_off s = ON
      \<and> ten_hours (gs_alarmKeeper s) = ten_hours (gs_timeKeeper (timer_isr p s))
      \<and> one_hours (gs_alarmKeeper s) = one_hours (gs_timeKeeper (timer_isr p s))
      \<and> ten_minutes (gs_alarmKeeper s) = ten_minutes (gs_timeKeeper (timer_isr p s))
      \<and> one_minutes (gs_alarmKeeper s) = one_minutes (gs_timeKeeper (timer_isr p s)))"

fun tone_started :: "event \<Rightarrow> clock \<Rightarrow> bool" where
  "tone_started (Second p) s = (alarm_due p s \<and> seconds (timer_isr p s) = 0)"
| "tone_started (Millisecond p) s = False"

fun activations :: "event list \<Rightarrow> clock \<Rightarrow> nat" where
  "activations [] s = 0"
| "activations (e # es) s = (if tone_started e s then 1 else 0) + activations es (step e s)"

fun same_minute :: "event list \<Rightarrow> clock \<Rightarrow> bool" where
  "same_minute [] s = True"
| "same_minute (e # es) s =
     (gs_timeKeeper (step e s) = gs_timeKeeper s \<and> same_minute es (step e s))"

section \<open>What each block writes\<close>

lemma word8_cmp_one [simp]:
  "\<not> (2::uint8_t) \<le> 1" "(1::uint8_t) < 2" "(1::uint8_t) \<le> 2" "\<not> (2::uint8_t) < 1"
  by (simp_all add: word_le_nat_alt word_less_nat_alt)

lemma alarm_switch_pressed_frame:
  "gs_timeKeeper (alarm_switch_pressed s) = gs_timeKeeper s"
  "gs_alarmKeeper (alarm_switch_pressed s) = gs_alarmKeeper s"
  "initTimeout (alarm_switch_pressed s) = initTimeout s"
  "milliseconds (alarm_switch_pressed s) = milliseconds s"
  "seconds (alarm_switch_pressed s) = seconds s"
  "digitSelect (alarm_switch_pressed s) = digitSelect s"
  by (simp_all add: alarm_switch_pressed_def Let_def)

lemma alarm_set_pressed_frame:
  "gs_timeKeeper (alarm_set_pressed p s) = gs_timeKeeper s"
  "alarm_on_off (alarm_set_pressed p s) = alarm_on_off s"
  "alarm_tone (alarm_set_pressed p s) = alarm_tone s"
  "prev_milliseconds (alarm_set_pressed p s) = prev_milliseconds s"
  "milliseconds (alarm_set_pressed p s) = milliseconds s"
  "seconds (alarm_set_pressed p s) = seconds s"
  "digitSelect (alarm_set_pressed p s) = digitSelect s"
  "ALARM_LED (alarm_set_pressed p s) = ALARM_LED s"
  by (simp_all add: alarm_set_pressed_def Let_def)

lemma time_set_pressed_frame:
  "gs_alarmKeeper (time_set_pressed p s) = gs_alarmKeeper s"
  "alarm_on_off (time_set_pressed p s) = alarm_on_off s"
  "alarm_tone (time_set_pressed p s) = alarm_tone s"
  "prev_milliseconds (time_set_pressed p s) = prev_milliseconds s"
  "milliseconds (time_set_pressed p s) = milliseconds s"
  "seconds (time_set_pressed p s) = seconds s"
  "digitSelect (time_set_pressed p s) = digitSelect s"
  "ALARM_LED (time_set_pressed p s) = ALARM_LED s"
  by (simp_all add: time_set_pressed_def Let_def)

lemma tone_sequence_frame:
  "gs_timeKeeper (tone_sequence s) = gs_timeKeeper s"
  "gs_alarmKeeper (tone_sequence s) = gs_alarmKeeper s"
  "alarm_on_off (tone_sequence s) = alarm_on_off s"
  "switchTimeout (tone_sequence s) = switchTimeout s"
  "initTimeout (tone_sequence s) = initTimeout s"
  "milliseconds (tone_sequence s) = milliseconds s"
  "seconds (tone_sequence s) = seconds s"
  "digitSelect (tone_sequence s) = digitSelect s"
  "ALARM_LED (tone_sequence s) = ALARM_LED s"
  by (simp_all add: tone_sequence_def)

lemma alarm_set_pressed_alarm:
  "gs_alarmKeeper (alarm_set_pressed p s) =
     (if (\<not> MINUTE_SWITCH p \<or> \<not> HOUR_SWITCH p) \<and> switchTimeout s + 1 > initTimeout s
      then alarm_set_rollover (add_pressed p (gs_alarmKeeper s)) else gs_alarmKeeper s)"
  by (simp add: alarm_set_pressed_def Let_def)

lemma time_set_pressed_time:
  "gs_timeKeeper (time_set_pressed p s) =
     (if (\<not> MINUTE_SWITCH p \<or> \<not> HOUR_SWITCH p) \<and> switchTimeout s + 1 > initTimeout s
      then time_set_rollover (add_pressed p (gs_timeKeeper s)) else gs_timeKeeper s)"
  by (simp add: time_set_pressed_def Let_def)

lemma alarm_set_pressed_switchTimeout:
  "switchTimeout (alarm_set_pressed p s) =
     (if (\<not> MINUTE_SWITCH p \<or> \<not> HOUR_SWITCH p) \<and> switchTimeout s + 1 > initTimeout s
      then 0 else switchTimeout s + 1)"
  by (simp add: alarm_set_pressed_def Let_def)

lemma time_set_pressed_switchTimeout:
  "switchTimeout (time_set_pressed p s) =
     (if (\<not> MINUTE_SWITCH p \<or> \<not> HOUR_SWITCH p) \<and> switchTimeout s + 1 > initTimeout s
      then 0 else switchTimeout s + 1)"
  by (simp add: time_set_pressed_def Let_def)

lemma control_isr_timeKeeper:
  "gs_timeKeeper (control_isr p s) =
     (if ALARM_SWITCH p \<and> SET_A_SWITCH p \<and> \<not> SET_T_SWITCH p
         \<and> (\<not> MINUTE_SWITCH p \<or> \<not> HOUR_SWITCH p) \<and> switchTimeout s + 1 > initTimeout s
      then time_set_rollover (add_pressed p (gs_timeKeeper s)) else gs_timeKeeper s)"
  by (simp add: control_isr_def Let_def tone_sequence_frame alarm_switch_pressed_frame
      alarm_set_pressed_frame time_set_pressed_time)

lemma control_isr_alarmKeeper:
  "gs_alarmKeeper (control_isr p s) =
     (if ALARM_SWITCH p \<and> \<not> SET_A_SWITCH p
         \<and> (\<not> MINUTE_SWITCH p \<or> \<not> HOUR_SWITCH p) \<and> switchTimeout s + 1 > initTimeout s
      then alarm_set_rollover (add_pressed p (gs_alarmKeeper s)) else gs_alarmKeeper s)"
  by (simp add: control_isr_def Let_def tone_sequence_frame alarm_switch_pressed_frame
      time_set_pressed_frame alarm_set_pressed_alarm)

lemma control_isr_switchTimeout:
  "switchTimeout (control_isr p s) =
     (if \<not> ALARM_SWITCH p
      then (if switchTimeout s > MIN_DELAY then switchTimeout s else switchTimeout s + 1)
      else if \<not> SET_A_SWITCH p \<or> \<not> SET_T_SWITCH p
      then (if (\<not> MINUTE_SWITCH p \<or> \<not> HOUR_SWITCH p) \<and> switchTimeout s + 1 > initTimeout s
            then 0 else switchTimeout s + 1)
      else 0)"
  by (simp add: control_isr_def Let_def tone_sequence_frame alarm_switch_pressed_def
      time_set_pressed_switchTimeout alarm_set_pressed_switchTimeout)

lemma timer_isr_alarmKeeper: "gs_alarmKeeper (timer_isr p s) = gs_alarmKeeper s"
  by (simp add: timer_isr_def timer_count_def alarm_check_def Let_def)

lemma alarm_check_time: "gs_timeKeeper (alarm_check s) = gs_timeKeeper s"
  by (simp add: alarm_check_def Let_def)

lemma alarm_check_seconds: "seconds (alarm_check s) = seconds s"
  by (simp add: alarm_check_def Let_def)

lemma timer_isr_timeKeeper:
  "gs_timeKeeper (timer_isr p s) =
     (if \<not> SET_T_SWITCH p then gs_timeKeeper s
      else if seconds s + 1 > 59
      then timer_rollover ((gs_timeKeeper s)\<lparr>one_minutes := one_minutes (gs_timeKeeper s) + 1\<rparr>)
      else timer_rollover (gs_timeKeeper s))"
  by (simp add: timer_isr_def timer_count_def alarm_check_time Let_def)


section \<open>The digits stay in range\<close>

lemma timer_rollover_ok:
  "one_minutes t \<le> 10 \<Longrightarrow> ten_minutes t \<le> 5 \<Longrightarrow> one_hours t \<le> 9
   \<Longrightarrow> \<not> (ten_hours t \<ge> 2 \<and> one_hours t \<ge> 4) \<Longrightarrow> ten_hours t \<le> 2
   \<Longrightarrow> before_midnight (timer_rollover t)"
  unfolding before_midnight_def time_ok_def timer_rollover_def Let_def
  apply (simp split: if_splits)
  apply unat_arith
  done

lemma time_set_rollover_ok:
  "one_minutes t \<le> 10 \<Longrightarrow> ten_minutes t \<le> 5 \<Longrightarrow> one_hours t \<le> 10
   \<Longrightarrow> ten_hours t \<le> 2 \<Longrightarrow> (ten_hours t \<ge> 2 \<longrightarrow> one_hours t \<le> 4)
   \<Longrightarrow> before_midnight (time_set_rollover t)"
  unfolding before_midnight_def time_ok_def time_set_rollover_def Let_def
  apply (simp split: if_splits)
  apply unat_arith
  done

lemma set_rollover_same: "alarm_set_rollover t = time_set_rollover t"
  unfolding alarm_set_rollover_def time_set_rollover_def by (rule refl)

lemma add_pressed_bounds:
  "before_midnight t \<Longrightarrow>
     one_minutes (add_pressed p t) \<le> 10 \<and> ten_minutes (add_pressed p t) \<le> 5
     \<and> one_hours (add_pressed p t) \<le> 10 \<and> ten_hours (add_pressed p t) \<le> 2
     \<and> (ten_hours (add_pressed p t) \<ge> 2 \<longrightarrow> one_hours (add_pressed p t) \<le> 4)"
  unfolding before_midnight_def time_ok_def add_pressed_def Let_def
  apply simp
  apply unat_arith
  done


lemma step_before_midnight:
  assumes "before_midnight (gs_timeKeeper s)" and "before_midnight (gs_alarmKeeper s)"
  shows "before_midnight (gs_timeKeeper (step e s)) \<and> before_midnight (gs_alarmKeeper (step e s))"
proof (cases e)
  case (Millisecond p)
  have t: "before_midnight (time_set_rollover (add_pressed p (gs_timeKeeper s)))"
    using add_pressed_bounds [OF assms(1), of p] by (intro time_set_rollover_ok) simp_all
  have a: "before_midnight (alarm_set_rollover (add_pressed p (gs_alarmKeeper s)))"
    using add_pressed_bounds [OF assms(2), of p]
    unfolding set_rollover_same by (intro time_set_rollover_ok) simp_all
  show ?thesis
    using assms t a by (simp add: Millisecond control_isr_timeKeeper control_isr_alarmKeeper)
next
  case (Second p)
  have le: "one_minutes (gs_timeKeeper s) \<le> 9" "ten_minutes (gs_timeKeeper s) \<le> 5"
    "one_hours (gs_timeKeeper s) \<le> 9" "ten_hours (gs_timeKeeper s) \<le> 2"
    "\<not> (ten_hours (gs_timeKeeper s) \<ge> 2 \<and> one_hours (gs_timeKeeper s) \<ge> 4)"
    using assms(1) by (simp_all add: before_midnight_def time_ok_def)
  have om: "one_minutes (gs_timeKeeper s) \<le> 10" "one_minutes (gs_timeKeeper s) + 1 \<le> 10"
    using le(1) by unat_arith+
  have t0: "before_midnight (timer_rollover (gs_timeKeeper s))"
    using le om by (intro timer_rollover_ok) simp_all
  have t1: "before_midnight (timer_rollover
      ((gs_timeKeeper s)\<lparr>one_minutes := one_minutes (gs_timeKeeper s) + 1\<rparr>))"
    using le om by (intro timer_rollover_ok) simp_all
  show ?thesis
    using assms t0 t1 by (simp add: Second timer_isr_timeKeeper timer_isr_alarmKeeper)
qed

lemma run_before_midnight:
  "before_midnight (gs_timeKeeper s) \<Longrightarrow> before_midnight (gs_alarmKeeper s)
   \<Longrightarrow> before_midnight (gs_timeKeeper (run es s)) \<and> before_midnight (gs_alarmKeeper (run es s))"
proof (induction es arbitrary: s)
  case Nil
  then show ?case by simp
next
  case (Cons e es)
  from step_before_midnight [OF Cons.prems, of e]
  show ?case by (simp add: Cons.IH)
qed

lemma before_midnight_zero: "before_midnight zero_time"
  by (simp add: before_midnight_def time_ok_def zero_time_def)

text \<open>
  Claim C1. In every state reached from the initial state by any sequence of millisecond
  and seconds interrupts, under any switch inputs, the current time has its minute digits
  within 0..9 and 0..5, its hour digit within 0..9 and never ten-hours at least 2 together
  with hours at least 4, so that it stands before 24:00; the alarm time obeys the same
  bounds.
\<close>

theorem reachable_time_in_range:
  "time_ok (gs_timeKeeper (run es initial_clock)) \<and> ten_hours (gs_timeKeeper (run es initial_clock)) \<le> 2
   \<and> time_ok (gs_alarmKeeper (run es initial_clock)) \<and> ten_hours (gs_alarmKeeper (run es initial_clock)) \<le> 2"
proof -
  have "before_midnight (gs_timeKeeper initial_clock)" "before_midnight (gs_alarmKeeper initial_clock)"
    by (simp_all add: initial_clock_def before_midnight_zero)
  from run_before_midnight [OF this, of es] show ?thesis
    by (simp add: before_midnight_def)
qed

theorem reachable_time_in_range_witness:
  "time_ok (gs_timeKeeper (run [Millisecond (released\<lparr>SET_T_SWITCH := False, HOUR_SWITCH := False\<rparr>),
        Second released] initial_clock))
   \<and> ten_hours (gs_timeKeeper (run [Millisecond (released\<lparr>SET_T_SWITCH := False, HOUR_SWITCH := False\<rparr>),
        Second released] initial_clock)) \<le> 2
   \<and> time_ok (gs_alarmKeeper (run [Millisecond (released\<lparr>SET_T_SWITCH := False, HOUR_SWITCH := False\<rparr>),
        Second released] initial_clock))
   \<and> ten_hours (gs_alarmKeeper (run [Millisecond (released\<lparr>SET_T_SWITCH := False, HOUR_SWITCH := False\<rparr>),
        Second released] initial_clock)) \<le> 2"
  by (rule reachable_time_in_range)

section \<open>Manual increments\<close>

lemma set_rollover_no_hour_carry:
  assumes "\<not> (one_minutes u > 9 \<and> ten_minutes u + 1 > 5)"
    and "\<not> (\<not> one_minutes u > 9 \<and> ten_minutes u > 5)"
  shows "time_set_rollover u = timer_rollover u"
proof (cases "one_minutes u > 9")
  case True
  with assms(1) have "\<not> ten_minutes u + 1 > 5" by simp
  with True show ?thesis
    by (simp add: time_set_rollover_def timer_rollover_def)
next
  case False
  with assms(2) have "\<not> ten_minutes u > 5" by simp
  with False show ?thesis
    by (simp add: time_set_rollover_def timer_rollover_def)
qed

lemma manual_vs_timer:
  assumes "time_ok t"
  shows "time_set_rollover (add_pressed p t) =
     (if \<not> MINUTE_SWITCH p \<and> one_minutes t = 9 \<and> ten_minutes t = 5
      then timer_rollover ((add_pressed p t)\<lparr>one_minutes := 0, ten_minutes := 0\<rparr>)
      else timer_rollover (add_pressed p t))"
proof -
  have le: "one_minutes t \<le> 9" "ten_minutes t \<le> 5"
    using assms by (simp_all add: time_ok_def)
  show ?thesis
  proof (cases "\<not> MINUTE_SWITCH p \<and> one_minutes t = 9 \<and> ten_minutes t = 5")
    case True
    then show ?thesis
      by (simp add: time_set_rollover_def timer_rollover_def add_pressed_def Let_def)
  next
    case False
    have a: "\<not> (one_minutes (add_pressed p t) > 9 \<and> ten_minutes (add_pressed p t) + 1 > 5)"
      using False le unfolding add_pressed_def Let_def
      apply simp
      apply unat_arith
      done
    have b: "\<not> (\<not> one_minutes (add_pressed p t) > 9 \<and> ten_minutes (add_pressed p t) > 5)"
      using le unfolding add_pressed_def Let_def
      apply simp
      apply unat_arith
      done
    show ?thesis
      by (simp only: if_not_P [OF False] set_rollover_no_hour_carry [OF a b])
  qed
qed


text \<open>
  Claim C2 as stated fails: with the time set switch held and the minute switch accepted
  at 19:59, the millisecond routine gives 19:00, where the carries of the seconds routine
  would give 20:00.
\<close>

theorem manual_minute_carry_counterexample:
  "gs_timeKeeper (control_isr (released\<lparr>SET_T_SWITCH := False, MINUTE_SWITCH := False\<rparr>)
      (initial_clock\<lparr>gs_timeKeeper := hhmm 1 9 5 9, switchTimeout := 125\<rparr>)) = hhmm 1 9 0 0
   \<and> timer_rollover (add_pressed (released\<lparr>SET_T_SWITCH := False, MINUTE_SWITCH := False\<rparr>)
        (hhmm 1 9 5 9)) = hhmm 2 0 0 0
   \<and> hhmm 1 9 0 0 \<noteq> hhmm 2 0 0 0"
  by (simp add: control_isr_timeKeeper released_def initial_clock_def INIT_DELAY_def hhmm_def
      time_set_rollover_def timer_rollover_def add_pressed_def Let_def)

text \<open>
  Claim C2, amended. For a time value within the digit ranges, an accepted manual
  increment transforms the alarm time (alarm set switch held) or the current time (time
  set switch held) by the carries of the seconds routine, except that a ten-minutes digit
  running over returns the minutes to 00 without carrying into the hours: 19:59 plus one
  manual minute is 19:00. The alarm time and the current time are treated alike.
\<close>

theorem manual_increment_rollover:
  assumes "ALARM_SWITCH p" and "\<not> MINUTE_SWITCH p \<or> \<not> HOUR_SWITCH p"
    and "switchTimeout s + 1 > initTimeout s"
    and "time_ok (gs_alarmKeeper s)" and "time_ok (gs_timeKeeper s)"
  shows "gs_alarmKeeper (control_isr (p\<lparr>SET_A_SWITCH := False\<rparr>) s)
           = amended_manual_increment p (gs_alarmKeeper s)
     \<and> gs_timeKeeper (control_isr (p\<lparr>SET_A_SWITCH := True, SET_T_SWITCH := False\<rparr>) s)
           = amended_manual_increment p (gs_timeKeeper s)
     \<and> amended_manual_increment (released\<lparr>MINUTE_SWITCH := False\<rparr>) (hhmm 1 9 5 9) = hhmm 1 9 0 0"
proof -
  have a: "add_pressed (p\<lparr>SET_A_SWITCH := False\<rparr>) = add_pressed p"
    "add_pressed (p\<lparr>SET_A_SWITCH := True, SET_T_SWITCH := False\<rparr>) = add_pressed p"
    by (simp_all add: add_pressed_def fun_eq_iff)
  have "gs_alarmKeeper (control_isr (p\<lparr>SET_A_SWITCH := False\<rparr>) s)
          = time_set_rollover (add_pressed p (gs_alarmKeeper s))"
    using assms(1-3) by (simp add: control_isr_alarmKeeper a set_rollover_same)
  moreover have "gs_timeKeeper (control_isr (p\<lparr>SET_A_SWITCH := True, SET_T_SWITCH := False\<rparr>) s)
          = time_set_rollover (add_pressed p (gs_timeKeeper s))"
    using assms(1-3) by (simp add: control_isr_timeKeeper a)
  moreover have "amended_manual_increment (released\<lparr>MINUTE_SWITCH := False\<rparr>) (hhmm 1 9 5 9)
      = hhmm 1 9 0 0"
    by (simp add: amended_manual_increment_def released_def hhmm_def timer_rollover_def
        add_pressed_def Let_def)
  ultimately show ?thesis
    by (simp add: manual_vs_timer [OF assms(4)] manual_vs_timer [OF assms(5)]
        amended_manual_increment_def)
qed

theorem manual_increment_rollover_witness:
  "ALARM_SWITCH (released\<lparr>MINUTE_SWITCH := False\<rparr>)
   \<and> \<not> MINUTE_SWITCH (released\<lparr>MINUTE_SWITCH := False\<rparr>)
   \<and> switchTimeout (initial_clock\<lparr>switchTimeout := 125, gs_timeKeeper := hhmm 1 9 5 9,
          gs_alarmKeeper := hhmm 0 6 2 9\<rparr>) + 1
       > initTimeout (initial_clock\<lparr>switchTimeout := 125, gs_timeKeeper := hhmm 1 9 5 9,
          gs_alarmKeeper := hhmm 0 6 2 9\<rparr>)
   \<and> time_ok (hhmm 0 6 2 9) \<and> time_ok (hhmm 1 9 5 9)
   \<and> gs_alarmKeeper (control_isr (released\<lparr>MINUTE_SWITCH := False, SET_A_SWITCH := False\<rparr>)
        (initial_clock\<lparr>switchTimeout := 125, gs_timeKeeper := hhmm 1 9 5 9,
          gs_alarmKeeper := hhmm 0 6 2 9\<rparr>)) = hhmm 0 6 3 0
   \<and> gs_timeKeeper (control_isr
        (released\<lparr>MINUTE_SWITCH := False, SET_A_SWITCH := True, SET_T_SWITCH := False\<rparr>)
        (initial_clock\<lparr>switchTimeout := 125, gs_timeKeeper := hhmm 1 9 5 9,
          gs_alarmKeeper := hhmm 0 6 2 9\<rparr>)) = hhmm 1 9 0 0"
proof -
  let ?p = "released\<lparr>MINUTE_SWITCH := False\<rparr>"
  let ?s = "initial_clock\<lparr>switchTimeout := 125, gs_timeKeeper := hhmm 1 9 5 9,
          gs_alarmKeeper := hhmm 0 6 2 9\<rparr>"
  have h1: "ALARM_SWITCH ?p" by (simp add: released_def)
  have h2: "\<not> MINUTE_SWITCH ?p \<or> \<not> HOUR_SWITCH ?p" by simp
  have h3: "switchTimeout ?s + 1 > initTimeout ?s"
    by (simp add: initial_clock_def INIT_DELAY_def)
  have h4: "time_ok (gs_alarmKeeper ?s)" by (simp add: time_ok_def hhmm_def)
  have h5: "time_ok (gs_timeKeeper ?s)" by (simp add: time_ok_def hhmm_def)
  have e1: "amended_manual_increment ?p (hhmm 0 6 2 9) = hhmm 0 6 3 0"
    by (simp add: amended_manual_increment_def released_def hhmm_def timer_rollover_def
        add_pressed_def Let_def)
  have e2: "amended_manual_increment ?p (hhmm 1 9 5 9) = hhmm 1 9 0 0"
    by (simp add: amended_manual_increment_def released_def hhmm_def timer_rollover_def
        add_pressed_def Let_def)
  from manual_increment_rollover [OF h1 h2 h3 h4 h5] h1 h3 h4 h5 e1 e2
  show ?thesis by simp
qed

text \<open>
  Claim C10. With a set switch held and both the minute and the hour switch pressed at
  the tick where the hold counter exceeds the repeat threshold, the one accepted action
  adds 1 to the minutes digit and 1 to the hours digit of the selected time before the
  carries run, leaves the other time alone and clears the hold counter.
\<close>

theorem both_switches_single_action:
  assumes "ALARM_SWITCH p" and "\<not> MINUTE_SWITCH p" and "\<not> HOUR_SWITCH p"
    and "switchTimeout s + 1 > initTimeout s"
  shows "gs_alarmKeeper (control_isr (p\<lparr>SET_A_SWITCH := False\<rparr>) s)
           = alarm_set_rollover ((gs_alarmKeeper s)
               \<lparr>one_minutes := one_minutes (gs_alarmKeeper s) + 1,
                one_hours := one_hours (gs_alarmKeeper s) + 1\<rparr>)
     \<and> gs_timeKeeper (control_isr (p\<lparr>SET_A_SWITCH := False\<rparr>) s) = gs_timeKeeper s
     \<and> switchTimeout (control_isr (p\<lparr>SET_A_SWITCH := False\<rparr>) s) = 0
     \<and> gs_timeKeeper (control_isr (p\<lparr>SET_A_SWITCH := True, SET_T_SWITCH := False\<rparr>) s)
           = time_set_rollover ((gs_timeKeeper s)
               \<lparr>one_minutes := one_minutes (gs_timeKeeper s) + 1,
                one_hours := one_hours (gs_timeKeeper s) + 1\<rparr>)
     \<and> gs_alarmKeeper (control_isr (p\<lparr>SET_A_SWITCH := True, SET_T_SWITCH := False\<rparr>) s)
           = gs_alarmKeeper s
     \<and> switchTimeout (control_isr (p\<lparr>SET_A_SWITCH := True, SET_T_SWITCH := False\<rparr>) s) = 0"
  using assms
  by (simp add: control_isr_alarmKeeper control_isr_timeKeeper control_isr_switchTimeout
      add_pressed_def)


theorem both_switches_single_action_witness:
  "ALARM_SWITCH (released\<lparr>MINUTE_SWITCH := False, HOUR_SWITCH := False\<rparr>)
   \<and> \<not> MINUTE_SWITCH (released\<lparr>MINUTE_SWITCH := False, HOUR_SWITCH := False\<rparr>)
   \<and> \<not> HOUR_SWITCH (released\<lparr>MINUTE_SWITCH := False, HOUR_SWITCH := False\<rparr>)
   \<and> switchTimeout (initial_clock\<lparr>switchTimeout := 125, gs_timeKeeper := hhmm 0 9 5 9\<rparr>) + 1
       > initTimeout (initial_clock\<lparr>switchTimeout := 125, gs_timeKeeper := hhmm 0 9 5 9\<rparr>)
   \<and> gs_alarmKeeper (control_isr
        (released\<lparr>MINUTE_SWITCH := False, HOUR_SWITCH := False, SET_A_SWITCH := False\<rparr>)
        (initial_clock\<lparr>switchTimeout := 125, gs_timeKeeper := hhmm 0 9 5 9\<rparr>)) = hhmm 0 1 0 1
   \<and> gs_timeKeeper (control_isr
        (released\<lparr>MINUTE_SWITCH := False, HOUR_SWITCH := False, SET_A_SWITCH := True,
           SET_T_SWITCH := False\<rparr>)
        (initial_clock\<lparr>switchTimeout := 125, gs_timeKeeper := hhmm 0 9 5 9\<rparr>)) = hhmm 1 0 0 0
   \<and> switchTimeout (control_isr
        (released\<lparr>MINUTE_SWITCH := False, HOUR_SWITCH := False, SET_A_SWITCH := True,
           SET_T_SWITCH := False\<rparr>)
        (initial_clock\<lparr>switchTimeout := 125, gs_timeKeeper := hhmm 0 9 5 9\<rparr>)) = 0"
proof -
  let ?p = "released\<lparr>MINUTE_SWITCH := False, HOUR_SWITCH := False\<rparr>"
  let ?s = "initial_clock\<lparr>switchTimeout := 125, gs_timeKeeper := hhmm 0 9 5 9\<rparr>"
  have h1: "ALARM_SWITCH ?p" by (simp add: released_def)
  have h2: "\<not> MINUTE_SWITCH ?p" by simp
  have h3: "\<not> HOUR_SWITCH ?p" by simp
  have h4: "switchTimeout ?s + 1 > initTimeout ?s"
    by (simp add: initial_clock_def INIT_DELAY_def)
  have e1: "alarm_set_rollover ((gs_alarmKeeper ?s)
               \<lparr>one_minutes := one_minutes (gs_alarmKeeper ?s) + 1,
                one_hours := one_hours (gs_alarmKeeper ?s) + 1\<rparr>) = hhmm 0 1 0 1"
    by (simp add: alarm_set_rollover_def initial_clock_def zero_time_def hhmm_def Let_def)
  have e2: "time_set_rollover ((gs_timeKeeper ?s)
               \<lparr>one_minutes := one_minutes (gs_timeKeeper ?s) + 1,
                one_hours := one_hours (gs_timeKeeper ?s) + 1\<rparr>) = hhmm 1 0 0 0"
    by (simp add: time_set_rollover_def hhmm_def Let_def)
  from both_switches_single_action [OF h1 h2 h3 h4] h1 h4 e1 e2
  show ?thesis by simp
qed

section \<open>The seconds routine\<close>

lemma timer_rollover_spec:
  "timer_rollover t =
     spec_joint_wrap (spec_carry_hours (spec_carry_ten_minutes (spec_carry_minutes t)))"
  unfolding timer_rollover_def spec_joint_wrap_def spec_carry_hours_def
    spec_carry_ten_minutes_def spec_carry_minutes_def Let_def
  by (rule refl)

lemma timer_isr_refines_spec:
  "SET_T_SWITCH p \<Longrightarrow>
     (seconds (timer_isr p s), gs_timeKeeper (timer_isr p s))
       = spec_seconds_step (seconds s, gs_timeKeeper s)"
  by (simp add: timer_isr_def timer_count_def spec_seconds_step_def spec_count_second_def
      timer_rollover_spec alarm_check_time alarm_check_seconds Let_def)

lemma spec_scenarios:
  "spec_seconds_step (59, hhmm 1 9 5 9) = (0, hhmm 2 0 0 0)"
  "spec_carry_hours (spec_carry_ten_minutes (spec_carry_minutes
     (snd (spec_count_second (59, hhmm 2 3 5 9))))) = hhmm 2 4 0 0"
  "spec_seconds_step (59, hhmm 2 3 5 9) = (0, hhmm 0 0 0 0)"
  by (simp_all add: spec_seconds_step_def spec_count_second_def spec_carry_minutes_def
      spec_carry_ten_minutes_def spec_carry_hours_def spec_joint_wrap_def hhmm_def)

text \<open>
  Claim C3. With the time set switch not pressed, one run of the seconds routine counts
  the second, carries a 60th second into the minutes, then carries minutes over 9, ten
  minutes over 5 and hours over 9 in this order, and last of all returns ten-hours at
  least 2 with hours at least 4 to 00. From 19:59:59 the result is 20:00:00; from
  23:59:59 the carries give hours 4 under ten-hours 2, and the joint wrap gives 00:00:00.
\<close>

theorem timer_isr_rollover_order:
  assumes "SET_T_SWITCH p"
  shows "(seconds (timer_isr p s), gs_timeKeeper (timer_isr p s))
           = spec_seconds_step (seconds s, gs_timeKeeper s)
     \<and> (seconds (timer_isr p (s\<lparr>seconds := 59, gs_timeKeeper := hhmm 1 9 5 9\<rparr>)),
         gs_timeKeeper (timer_isr p (s\<lparr>seconds := 59, gs_timeKeeper := hhmm 1 9 5 9\<rparr>)))
           = (0, hhmm 2 0 0 0)
     \<and> spec_carry_hours (spec_carry_ten_minutes (spec_carry_minutes
          (snd (spec_count_second (59, hhmm 2 3 5 9))))) = hhmm 2 4 0 0
     \<and> (seconds (timer_isr p (s\<lparr>seconds := 59, gs_timeKeeper := hhmm 2 3 5 9\<rparr>)),
         gs_timeKeeper (timer_isr p (s\<lparr>seconds := 59, gs_timeKeeper := hhmm 2 3 5 9\<rparr>)))
           = (0, hhmm 0 0 0 0)"
  by (simp add: timer_isr_refines_spec [OF assms] spec_scenarios)

theorem timer_isr_rollover_order_witness:
  "SET_T_SWITCH released
   \<and> seconds (timer_isr released (initial_clock\<lparr>seconds := 59, gs_timeKeeper := hhmm 1 9 5 9\<rparr>)) = 0
   \<and> gs_timeKeeper (timer_isr released (initial_clock\<lparr>seconds := 59, gs_timeKeeper := hhmm 1 9 5 9\<rparr>))
       = hhmm 2 0 0 0"
proof -
  have h: "SET_T_SWITCH released" by (simp add: released_def)
  from timer_isr_rollover_order [OF h, of initial_clock] h
  show ?thesis by simp
qed

text \<open>
  Claim C9. When the time set switch is pressed, one run of the seconds routine sets the
  seconds to 0 and changes nothing else: the digits of the current time and of the alarm
  time, the armed flag, the tone and the tone timestamp are as before.
\<close>

theorem timer_isr_time_set_frame:
  assumes "\<not> SET_T_SWITCH p"
  shows "timer_isr p s = s\<lparr>seconds := 0\<rparr>"
  using assms by (simp add: timer_isr_def)

theorem timer_isr_time_set_frame_witness:
  "\<not> SET_T_SWITCH (released\<lparr>SET_T_SWITCH := False\<rparr>)
   \<and> timer_isr (released\<lparr>SET_T_SWITCH := False\<rparr>)
        (initial_clock\<lparr>seconds := 37, gs_timeKeeper := hhmm 1 9 5 9, alarm_on_off := ON,
           alarm_tone := 7\<rparr>)
       = initial_clock\<lparr>seconds := 0, gs_timeKeeper := hhmm 1 9 5 9, alarm_on_off := ON,
           alarm_tone := 7\<rparr>"
proof -
  have h: "\<not> SET_T_SWITCH (released\<lparr>SET_T_SWITCH := False\<rparr>)" by simp
  from timer_isr_time_set_frame [OF h] h
  show ?thesis by simp
qed

section \<open>A full day\<close>

lemma unat_succ_small: "unat (x::uint8_t) < 255 \<Longrightarrow> unat (x + 1) = unat x + 1"
  by (simp add: unat_word_ariths)

lemma u9: "(x::uint8_t) \<le> 9 \<Longrightarrow> x \<noteq> 9 \<Longrightarrow> \<not> x + 1 > 9" by unat_arith
lemma u5: "(x::uint8_t) \<le> 5 \<Longrightarrow> x \<noteq> 5 \<Longrightarrow> \<not> x + 1 > 5" by unat_arith
lemma u59: "(x::uint8_t) \<le> 59 \<Longrightarrow> x \<noteq> 59 \<Longrightarrow> \<not> x + 1 > 59" by unat_arith

lemma timer_rollover_id:
  assumes "before_midnight t"
  shows "timer_rollover t = t"
proof -
  have "\<not> one_minutes t > 9" "\<not> ten_minutes t > 5" "\<not> one_hours t > 9"
    "\<not> (ten_hours t \<ge> 2 \<and> one_hours t \<ge> 4)"
    using assms by (auto simp: before_midnight_def time_ok_def)
  then show ?thesis by (auto simp: timer_rollover_def)
qed

lemma before_midnight_nat:
  assumes "before_midnight t"
  shows "unat (one_minutes t) \<le> 9 \<and> unat (ten_minutes t) \<le> 5 \<and> unat (one_hours t) \<le> 9
     \<and> unat (ten_hours t) \<le> 2 \<and> (unat (ten_hours t) = 2 \<longrightarrow> unat (one_hours t) \<le> 3)"
proof -
  have le: "one_minutes t \<le> 9" "ten_minutes t \<le> 5" "one_hours t \<le> 9" "ten_hours t \<le> 2"
    and wrap: "\<not> (ten_hours t \<ge> 2 \<and> one_hours t \<ge> 4)"
    using assms by (simp_all add: before_midnight_def time_ok_def)
  have "unat (one_minutes t) \<le> 9" "unat (ten_minutes t) \<le> 5" "unat (one_hours t) \<le> 9"
    "unat (ten_hours t) \<le> 2"
    using le by (simp_all add: word_le_nat_alt)
  moreover have "\<not> (2 \<le> unat (ten_hours t) \<and> 4 \<le> unat (one_hours t))"
    using wrap by (simp add: word_le_nat_alt)
  then have "unat (ten_hours t) = 2 \<longrightarrow> unat (one_hours t) \<le> 3"
    by auto
  ultimately show ?thesis by simp
qed

lemma day_bound:
  fixes a b c d :: nat
  assumes "a \<le> 9" and "b \<le> 5" and "c \<le> 9" and "d \<le> 2" and "d = 2 \<longrightarrow> c \<le> 3"
  shows "a + 10 * b + 60 * (c + 10 * d) < 1440"
proof (cases "d = 2")
  case True
  with assms show ?thesis by simp
next
  case False
  with assms have "d \<le> 1" by simp
  with assms show ?thesis by simp
qed

lemma minutes_of_day_less: "before_midnight t \<Longrightarrow> minutes_of_day t < 1440"
  using before_midnight_nat [of t] unfolding minutes_of_day_def
  by (intro day_bound) simp_all

lemma next_minute_mod:
  "before_midnight t' \<Longrightarrow> minutes_of_day t' = m + 1 \<Longrightarrow> minutes_of_day t' = (m + 1) mod 1440"
  using minutes_of_day_less [of t'] by simp

lemma timer_rollover_next_minute:
  assumes "before_midnight t"
  shows "before_midnight (timer_rollover (t\<lparr>one_minutes := one_minutes t + 1\<rparr>))
     \<and> minutes_of_day (timer_rollover (t\<lparr>one_minutes := one_minutes t + 1\<rparr>))
         = (minutes_of_day t + 1) mod 1440"
proof -
  have ok: "one_minutes t \<le> 9" "ten_minutes t \<le> 5" "one_hours t \<le> 9" "ten_hours t \<le> 2"
    "\<not> (ten_hours t \<ge> 2 \<and> one_hours t \<ge> 4)"
    using assms by (auto simp: before_midnight_def time_ok_def)
  have nok: "\<not> one_minutes t > 9" "\<not> ten_minutes t > 5" "\<not> one_hours t > 9"
    using ok by (simp_all add: not_less)
  note n = before_midnight_nat [OF assms]
  have suc: "unat (one_minutes t + 1) = unat (one_minutes t) + 1"
    "unat (ten_minutes t + 1) = unat (ten_minutes t) + 1"
    "unat (one_hours t + 1) = unat (one_hours t) + 1"
    "unat (ten_hours t + 1) = unat (ten_hours t) + 1"
    using n by (simp_all add: unat_succ_small)
  show ?thesis
  proof (cases "one_minutes t = 9")
    case False
    then have a: "\<not> one_minutes t + 1 > 9" using ok(1) by (rule u9 [rotated])
    have b: "before_midnight (t\<lparr>one_minutes := one_minutes t + 1\<rparr>)"
      using assms a by (simp add: before_midnight_def time_ok_def not_less)
    have c: "minutes_of_day (t\<lparr>one_minutes := one_minutes t + 1\<rparr>) = minutes_of_day t + 1"
      by (simp add: minutes_of_day_def suc)
    show ?thesis
      unfolding timer_rollover_id [OF b] using b next_minute_mod [OF b c] by (rule conjI)
  next
    case om: True
    then have om': "unat (one_minutes t) = 9" by simp
    show ?thesis
    proof (cases "ten_minutes t = 5")
      case False
      then have a: "\<not> ten_minutes t + 1 > 5" using ok(2) by (rule u5 [rotated])
      have r: "timer_rollover (t\<lparr>one_minutes := one_minutes t + 1\<rparr>)
                 = t\<lparr>ten_minutes := ten_minutes t + 1, one_minutes := 0\<rparr>"
        using om a nok ok(5) by (auto simp: timer_rollover_def Let_def)
      have b: "before_midnight (t\<lparr>ten_minutes := ten_minutes t + 1, one_minutes := 0\<rparr>)"
        using assms a by (simp add: before_midnight_def time_ok_def not_less)
      have c: "minutes_of_day (t\<lparr>ten_minutes := ten_minutes t + 1, one_minutes := 0\<rparr>)
                 = minutes_of_day t + 1"
        by (simp add: minutes_of_day_def suc om')
      show ?thesis
        unfolding r using b next_minute_mod [OF b c] by (rule conjI)
    next
      case tm: True
      then have tm': "unat (ten_minutes t) = 5" by simp
      show ?thesis
      proof (cases "one_hours t = 9")
        case oh: True
        then have oh': "unat (one_hours t) = 9" by simp
        have th: "\<not> ten_hours t \<ge> 2" using ok(5) oh by simp
        have r: "timer_rollover (t\<lparr>one_minutes := one_minutes t + 1\<rparr>)
                 = t\<lparr>one_minutes := 0, ten_minutes := 0, one_hours := 0,
                     ten_hours := ten_hours t + 1\<rparr>"
          using om tm oh th by (simp add: timer_rollover_def Let_def)
        have th2: "ten_hours t + 1 \<le> 2" using th by unat_arith
        have b: "before_midnight (t\<lparr>one_minutes := 0, ten_minutes := 0, one_hours := 0,
                     ten_hours := ten_hours t + 1\<rparr>)"
          using th2 by (simp add: before_midnight_def time_ok_def)
        have c: "minutes_of_day (t\<lparr>one_minutes := 0, ten_minutes := 0, one_hours := 0,
                     ten_hours := ten_hours t + 1\<rparr>) = minutes_of_day t + 1"
          by (simp add: minutes_of_day_def suc om' tm' oh')
        show ?thesis
          unfolding r using b next_minute_mod [OF b c] by (rule conjI)
      next
        case oh: False
        then have a: "\<not> one_hours t + 1 > 9" using ok(3) by (rule u9 [rotated])
        show ?thesis
        proof (cases "ten_hours t \<ge> 2 \<and> one_hours t + 1 \<ge> 4")
          case True
          have r: "timer_rollover (t\<lparr>one_minutes := one_minutes t + 1\<rparr>)
                 = t\<lparr>one_minutes := 0, ten_minutes := 0, one_hours := 0, ten_hours := 0\<rparr>"
            using om tm a True by (simp add: timer_rollover_def Let_def)
          have "2 \<le> unat (ten_hours t)" "4 \<le> unat (one_hours t) + 1"
            using True by (simp_all add: word_le_nat_alt suc)
          with n have "unat (ten_hours t) = 2" "unat (one_hours t) = 3"
            by auto
          then have c: "minutes_of_day t = 1439"
            by (simp add: minutes_of_day_def om' tm')
          show ?thesis
            unfolding r c
            by (simp add: before_midnight_def time_ok_def minutes_of_day_def)
        next
          case False
          have r: "timer_rollover (t\<lparr>one_minutes := one_minutes t + 1\<rparr>)
                 = t\<lparr>one_minutes := 0, ten_minutes := 0, one_hours := one_hours t + 1\<rparr>"
            using om tm a False by (auto simp: timer_rollover_def Let_def)
          have b: "before_midnight
              (t\<lparr>one_minutes := 0, ten_minutes := 0, one_hours := one_hours t + 1\<rparr>)"
            using a False ok(4) by (simp add: before_midnight_def time_ok_def not_less)
          have c: "minutes_of_day
              (t\<lparr>one_minutes := 0, ten_minutes := 0, one_hours := one_hours t + 1\<rparr>)
                = minutes_of_day t + 1"
            by (simp add: minutes_of_day_def suc om' tm')
          show ?thesis
            unfolding r using b next_minute_mod [OF b c] by (rule conjI)
        qed
      qed
    qed
  qed
qed


lemma timer_isr_seconds:
  "seconds (timer_isr p s) =
     (if \<not> SET_T_SWITCH p then 0 else if seconds s + 1 > 59 then 0 else seconds s + 1)"
  by (simp add: timer_isr_def timer_count_def alarm_check_seconds Let_def)

lemma timer_isr_tick:
  assumes "SET_T_SWITCH p" and "seconds s \<le> 59" and "before_midnight (gs_timeKeeper s)"
  shows "seconds (timer_isr p s) \<le> 59 \<and> before_midnight (gs_timeKeeper (timer_isr p s))
     \<and> seconds_of_day (timer_isr p s) = (seconds_of_day s + 1) mod 86400"
proof (cases "seconds s = 59")
  case True
  let ?t = "timer_rollover ((gs_timeKeeper s)\<lparr>one_minutes := one_minutes (gs_timeKeeper s) + 1\<rparr>)"
  have sec: "seconds (timer_isr p s) = 0"
    using assms(1) True by (simp add: timer_isr_seconds)
  have tk: "gs_timeKeeper (timer_isr p s) = ?t"
    using assms(1) True by (simp add: timer_isr_timeKeeper)
  note m = timer_rollover_next_minute [OF assms(3)]
  have "60 * ((minutes_of_day (gs_timeKeeper s) + 1) mod 1440)
          = (60 * (minutes_of_day (gs_timeKeeper s) + 1)) mod (60 * 1440)"
    by (rule mult_mod_right)
  then have "seconds_of_day (timer_isr p s) = (seconds_of_day s + 1) mod 86400"
    using m True by (simp add: seconds_of_day_def sec tk)
  then show ?thesis using m by (simp add: sec tk)
next
  case False
  then have a: "\<not> seconds s + 1 > 59" using assms(2) by (rule u59 [rotated])
  have sec: "seconds (timer_isr p s) = seconds s + 1"
    using assms(1) a by (simp add: timer_isr_seconds)
  have tk: "gs_timeKeeper (timer_isr p s) = gs_timeKeeper s"
    using assms(1) a by (simp add: timer_isr_timeKeeper timer_rollover_id [OF assms(3)])
  have "unat (seconds s) \<le> 59" using assms(2) by (simp add: word_le_nat_alt)
  then have u: "unat (seconds s + 1) = unat (seconds s) + 1"
    by (simp add: unat_succ_small)
  have "unat (seconds s + 1) \<le> 59" using a by (simp add: word_le_nat_alt not_less)
  then have "unat (seconds s) + 1 + 60 * minutes_of_day (gs_timeKeeper s) < 86400"
    using minutes_of_day_less [OF assms(3)] unfolding u by simp
  then have "seconds_of_day (timer_isr p s) = (seconds_of_day s + 1) mod 86400"
    by (simp add: seconds_of_day_def sec tk u)
  then show ?thesis using a assms(3) by (simp add: sec tk not_less)
qed

lemma run_seconds_of_day:
  assumes "\<forall>p\<in>set ps. SET_T_SWITCH p"
    and "seconds s \<le> 59" and "before_midnight (gs_timeKeeper s)"
  shows "seconds (run (map Second ps) s) \<le> 59
     \<and> before_midnight (gs_timeKeeper (run (map Second ps) s))
     \<and> seconds_of_day (run (map Second ps) s) = (seconds_of_day s + length ps) mod 86400"
  using assms
proof (induction ps arbitrary: s)
  case Nil
  have "unat (seconds s) \<le> 59" using Nil.prems(2) by (simp add: word_le_nat_alt)
  then have "seconds_of_day s < 86400"
    using minutes_of_day_less [OF Nil.prems(3)] by (simp add: seconds_of_day_def)
  then show ?case using Nil.prems by simp
next
  case (Cons p ps)
  have p: "SET_T_SWITCH p" and ps: "\<forall>p\<in>set ps. SET_T_SWITCH p"
    using Cons.prems(1) by simp_all
  note t = timer_isr_tick [OF p Cons.prems(2,3)]
  from t have a: "seconds (timer_isr p s) \<le> 59"
    and b: "before_midnight (gs_timeKeeper (timer_isr p s))"
    and c: "seconds_of_day (timer_isr p s) = (seconds_of_day s + 1) mod 86400"
    by simp_all
  have "((seconds_of_day s + 1) mod 86400 + length ps) mod 86400
          = (seconds_of_day s + 1 + length ps) mod 86400"
    by (rule mod_add_left_eq)
  then show ?case
    using Cons.IH [OF ps a b] by (simp add: c)
qed

lemma midnight_unique:
  assumes "seconds_of_day s = 0"
  shows "seconds s = 0 \<and> gs_timeKeeper s = zero_time"
proof -
  have "unat (seconds s) = 0" "unat (one_minutes (gs_timeKeeper s)) = 0"
    "unat (ten_minutes (gs_timeKeeper s)) = 0" "unat (one_hours (gs_timeKeeper s)) = 0"
    "unat (ten_hours (gs_timeKeeper s)) = 0"
    using assms by (simp_all add: seconds_of_day_def minutes_of_day_def)
  then have "seconds s = 0" "one_minutes (gs_timeKeeper s) = 0"
    "ten_minutes (gs_timeKeeper s) = 0" "one_hours (gs_timeKeeper s) = 0"
    "ten_hours (gs_timeKeeper s) = 0"
    by (simp_all add: unat_eq_0)
  then show ?thesis by (simp add: zero_time_def)
qed

lemma timer_isr_disarmed:
  assumes "alarm_on_off s = OFF"
  shows "timer_isr p s
           = s\<lparr>seconds := seconds (timer_isr p s), gs_timeKeeper := gs_timeKeeper (timer_isr p s)\<rparr>"
    and "alarm_on_off (timer_isr p s) = OFF"
  using assms by (simp_all add: timer_isr_def timer_count_def alarm_check_def ON_def OFF_def Let_def)

lemma run_seconds_disarmed:
  assumes "alarm_on_off s = OFF"
  shows "run (map Second ps) s
           = s\<lparr>seconds := seconds (run (map Second ps) s),
                gs_timeKeeper := gs_timeKeeper (run (map Second ps) s)\<rparr>"
  using assms
proof (induction ps arbitrary: s)
  case Nil
  then show ?case by simp
next
  case (Cons p ps)
  note d = timer_isr_disarmed [OF Cons.prems, of p]
  have "run (map Second ps) (timer_isr p s)
     = (timer_isr p s)\<lparr>seconds := seconds (run (map Second ps) (timer_isr p s)),
          gs_timeKeeper := gs_timeKeeper (run (map Second ps) (timer_isr p s))\<rparr>"
    by (rule Cons.IH [OF d(2)])
  also have "\<dots> = s\<lparr>seconds := seconds (run (map Second ps) (timer_isr p s)),
          gs_timeKeeper := gs_timeKeeper (run (map Second ps) (timer_isr p s))\<rparr>"
    by (subst d(1)) simp
  finally show ?case by simp
qed

text \<open>
  Claim C7. Starting with the current time 00:00, the seconds at 0 and the alarm disarmed,
  86400 runs of the seconds routine with the time set switch not pressed bring the clock
  back to the state it started from: 00:00 with seconds 0, nothing else touched.
\<close>

theorem full_day_round_trip:
  assumes "length ps = 86400" and "\<forall>p\<in>set ps. SET_T_SWITCH p"
    and "gs_timeKeeper s = zero_time" and "seconds s = 0" and "alarm_on_off s = OFF"
  shows "run (map Second ps) s = s"
proof -
  have v: "seconds s \<le> 59" "before_midnight (gs_timeKeeper s)"
    using assms(3,4) by (simp_all add: before_midnight_def time_ok_def zero_time_def)
  have z: "seconds_of_day s = 0"
    using assms(3,4) by (simp add: seconds_of_day_def minutes_of_day_def zero_time_def)
  have "seconds_of_day (run (map Second ps) s) = 0"
    using run_seconds_of_day [OF assms(2) v] by (simp add: z assms(1))
  then have "seconds (run (map Second ps) s) = 0"
    "gs_timeKeeper (run (map Second ps) s) = zero_time"
    using midnight_unique by simp_all
  then have "run (map Second ps) s = s\<lparr>seconds := 0, gs_timeKeeper := zero_time\<rparr>"
    using run_seconds_disarmed [OF assms(5), of ps] by simp
  then show ?thesis using assms(3,4) by simp
qed

theorem full_day_round_trip_witness:
  "run (map Second (replicate 86400 released)) initial_clock = initial_clock"
proof -
  have h1: "length (replicate 86400 released) = 86400" by simp
  have h2: "\<forall>p\<in>set (replicate 86400 released). SET_T_SWITCH p"
    by (simp add: released_def)
  have h3: "gs_timeKeeper initial_clock = zero_time" "seconds initial_clock = 0"
    "alarm_on_off initial_clock = OFF"
    by (simp_all add: initial_clock_def)
  show ?thesis by (rule full_day_round_trip [OF h1 h2 h3])
qed


section \<open>The alarm check\<close>

lemma word8_59_0 [simp]: "\<not> (59::uint8_t) \<le> 0"
  by (simp add: word_le_nat_alt)

lemma timer_count_frame:
  "alarm_on_off (timer_count s) = alarm_on_off s"
  "gs_alarmKeeper (timer_count s) = gs_alarmKeeper s"
  "alarm_tone (timer_count s) = alarm_tone s"
  "milliseconds (timer_count s) = milliseconds s"
  "prev_milliseconds (timer_count s) = prev_milliseconds s"
  by (simp_all add: timer_count_def Let_def)

lemma timer_isr_after_count:
  assumes "SET_T_SWITCH p"
  shows "seconds (timer_isr p s) = seconds (timer_count s)"
    and "gs_timeKeeper (timer_isr p s) = gs_timeKeeper (timer_count s)"
    and "alarm_tone (timer_isr p s) = alarm_tone (alarm_check (timer_count s))"
    and "prev_milliseconds (timer_isr p s) = prev_milliseconds (alarm_check (timer_count s))"
  using assms by (simp_all add: timer_isr_def alarm_check_seconds alarm_check_time)

lemma first_second_of_minute:
  assumes "SET_T_SWITCH p" and "seconds s \<le> 59"
  shows "(seconds (timer_isr p s) = 0) = (seconds s = 59)"
proof (cases "seconds s = 59")
  case True
  then show ?thesis using assms(1) by (simp add: timer_isr_seconds)
next
  case False
  then have a: "\<not> seconds s + 1 > 59" using assms(2) by (rule u59 [rotated])
  have "unat (seconds s) \<le> 59" using assms(2) by (simp add: word_le_nat_alt)
  then have "unat (seconds s + 1) = unat (seconds s) + 1" by (simp add: unat_succ_small)
  then have "seconds s + 1 \<noteq> 0" by (auto simp: word_unat_eq_iff)
  then show ?thesis using False a assms(1) by (simp add: timer_isr_seconds)
qed

lemma alarm_check_tone:
  "alarm_tone (alarm_check s) =
     (if alarm_on_off s = ON
         \<and> ten_hours (gs_alarmKeeper s) = ten_hours (gs_timeKeeper s)
         \<and> one_hours (gs_alarmKeeper s) = one_hours (gs_timeKeeper s)
         \<and> ten_minutes (gs_alarmKeeper s) = ten_minutes (gs_timeKeeper s)
         \<and> one_minutes (gs_alarmKeeper s) = one_minutes (gs_timeKeeper s)
      then (if seconds s = 0 then 7 else if seconds s \<ge> 59 then 0 else alarm_tone s)
      else alarm_tone s)"
  "prev_milliseconds (alarm_check s) =
     (if alarm_on_off s = ON
         \<and> ten_hours (gs_alarmKeeper s) = ten_hours (gs_timeKeeper s)
         \<and> one_hours (gs_alarmKeeper s) = one_hours (gs_timeKeeper s)
         \<and> ten_minutes (gs_alarmKeeper s) = ten_minutes (gs_timeKeeper s)
         \<and> one_minutes (gs_alarmKeeper s) = one_minutes (gs_timeKeeper s)
      then (if seconds s = 0 then milliseconds s else if seconds s \<ge> 59 then 0
            else prev_milliseconds s)
      else prev_milliseconds s)"
  by (simp_all add: alarm_check_def Let_def)

lemma timer_isr_tone:
  "alarm_tone (timer_isr p s) =
     (if alarm_due p s
      then (if seconds (timer_isr p s) = 0 then 7
            else if seconds (timer_isr p s) \<ge> 59 then 0 else alarm_tone s)
      else alarm_tone s)"
  "prev_milliseconds (timer_isr p s) =
     (if alarm_due p s
      then (if seconds (timer_isr p s) = 0 then milliseconds s
            else if seconds (timer_isr p s) \<ge> 59 then 0 else prev_milliseconds s)
      else prev_milliseconds s)"
proof -
  show "alarm_tone (timer_isr p s) =
     (if alarm_due p s
      then (if seconds (timer_isr p s) = 0 then 7
            else if seconds (timer_isr p s) \<ge> 59 then 0 else alarm_tone s)
      else alarm_tone s)"
  proof (cases "SET_T_SWITCH p")
    case True
    note c = timer_isr_after_count [OF True, of s]
    show ?thesis
      unfolding alarm_due_def c
      by (simp add: True alarm_check_tone timer_count_frame)
  next
    case False
    then show ?thesis by (simp add: alarm_due_def timer_isr_def)
  qed
  show "prev_milliseconds (timer_isr p s) =
     (if alarm_due p s
      then (if seconds (timer_isr p s) = 0 then milliseconds s
            else if seconds (timer_isr p s) \<ge> 59 then 0 else prev_milliseconds s)
      else prev_milliseconds s)"
  proof (cases "SET_T_SWITCH p")
    case True
    note c = timer_isr_after_count [OF True, of s]
    show ?thesis
      unfolding alarm_due_def c
      by (simp add: True alarm_check_tone timer_count_frame)
  next
    case False
    then show ?thesis by (simp add: alarm_due_def timer_isr_def)
  qed
qed

lemma control_isr_seconds: "seconds (control_isr p s) = seconds s"
  by (simp add: control_isr_def Let_def tone_sequence_frame alarm_switch_pressed_frame
      alarm_set_pressed_frame time_set_pressed_frame)

lemma step_minute_valid:
  assumes "seconds s \<le> 59" and "before_midnight (gs_timeKeeper s)"
  shows "seconds (step e s) \<le> 59 \<and> before_midnight (gs_timeKeeper (step e s))"
proof (cases e)
  case (Millisecond p)
  have "before_midnight (time_set_rollover (add_pressed p (gs_timeKeeper s)))"
    using add_pressed_bounds [OF assms(2), of p] by (intro time_set_rollover_ok) simp_all
  then show ?thesis
    using assms by (simp add: Millisecond control_isr_seconds control_isr_timeKeeper)
next
  case (Second p)
  show ?thesis
  proof (cases "SET_T_SWITCH p")
    case True
    from timer_isr_tick [OF True assms] show ?thesis by (simp add: Second)
  next
    case False
    then show ?thesis using assms(2) by (simp add: Second timer_isr_def)
  qed
qed

lemma next_minute_differs: "m < 1440 \<Longrightarrow> (m + 1) mod 1440 \<noteq> (m::nat)"
proof (cases "m = 1439")
  case True
  then show ?thesis by simp
next
  case False
  assume "m < 1440"
  with False have "m + 1 < 1440" by simp
  then show ?thesis by simp
qed

lemma no_start_same_minute:
  assumes "seconds s \<le> 59" and "before_midnight (gs_timeKeeper s)"
    and "gs_timeKeeper (step e s) = gs_timeKeeper s"
  shows "\<not> tone_started e s"
proof (cases e)
  case (Millisecond p)
  then show ?thesis by simp
next
  case (Second p)
  show ?thesis
  proof
    assume "tone_started e s"
    then have due: "alarm_due p s" and z: "seconds (timer_isr p s) = 0"
      by (simp_all add: Second)
    from due have t: "SET_T_SWITCH p" by (simp add: alarm_due_def)
    from z have "seconds s = 59"
      using first_second_of_minute [OF t assms(1)] by simp
    then have tk: "gs_timeKeeper (timer_isr p s)
        = timer_rollover ((gs_timeKeeper s)\<lparr>one_minutes := one_minutes (gs_timeKeeper s) + 1\<rparr>)"
      using t by (simp add: timer_isr_timeKeeper)
    from timer_rollover_next_minute [OF assms(2)]
    have "minutes_of_day (gs_timeKeeper (timer_isr p s))
        = (minutes_of_day (gs_timeKeeper s) + 1) mod 1440"
      by (simp add: tk)
    moreover have "gs_timeKeeper (timer_isr p s) = gs_timeKeeper s"
      using assms(3) by (simp add: Second)
    ultimately have "(minutes_of_day (gs_timeKeeper s) + 1) mod 1440
        = minutes_of_day (gs_timeKeeper s)"
      by simp
    then show False
      using next_minute_differs [OF minutes_of_day_less [OF assms(2)]] by simp
  qed
qed

lemma same_minute_no_activation:
  assumes "seconds s \<le> 59" and "before_midnight (gs_timeKeeper s)" and "same_minute es s"
  shows "activations es s = 0"
  using assms
proof (induction es arbitrary: s)
  case Nil
  then show ?case by simp
next
  case (Cons e es)
  from Cons.prems(3) have same: "gs_timeKeeper (step e s) = gs_timeKeeper s"
    and rest: "same_minute es (step e s)"
    by simp_all
  from step_minute_valid [OF Cons.prems(1,2), of e]
  have v: "seconds (step e s) \<le> 59" "before_midnight (gs_timeKeeper (step e s))"
    by simp_all
  have "\<not> tone_started e s"
    by (rule no_start_same_minute [OF Cons.prems(1,2) same])
  then show ?case
    using Cons.IH [OF v rest] by simp
qed


text \<open>
  Claim C5 as stated fails. With the time set switch pressed, an armed alarm whose digits
  equal the current time and seconds that end at 0 leave the tone at 0: the routine
  returns before the alarm check. The minute that follows the release is a matching
  minute, and its 59 runs pass without any activation.
\<close>

theorem alarm_skipped_counterexample:
  "alarm_on_off (initial_clock\<lparr>seconds := 30, gs_timeKeeper := hhmm 0 6 3 0,
        gs_alarmKeeper := hhmm 0 6 3 0, alarm_on_off := ON\<rparr>) = ON
   \<and> gs_alarmKeeper (initial_clock\<lparr>seconds := 30, gs_timeKeeper := hhmm 0 6 3 0,
        gs_alarmKeeper := hhmm 0 6 3 0, alarm_on_off := ON\<rparr>)
       = gs_timeKeeper (timer_isr (released\<lparr>SET_T_SWITCH := False\<rparr>)
           (initial_clock\<lparr>seconds := 30, gs_timeKeeper := hhmm 0 6 3 0,
              gs_alarmKeeper := hhmm 0 6 3 0, alarm_on_off := ON\<rparr>))
   \<and> seconds (timer_isr (released\<lparr>SET_T_SWITCH := False\<rparr>)
        (initial_clock\<lparr>seconds := 30, gs_timeKeeper := hhmm 0 6 3 0,
           gs_alarmKeeper := hhmm 0 6 3 0, alarm_on_off := ON\<rparr>)) = 0
   \<and> alarm_tone (timer_isr (released\<lparr>SET_T_SWITCH := False\<rparr>)
        (initial_clock\<lparr>seconds := 30, gs_timeKeeper := hhmm 0 6 3 0,
           gs_alarmKeeper := hhmm 0 6 3 0, alarm_on_off := ON\<rparr>)) = 0
   \<and> gs_timeKeeper (run (replicate 59 (Second released))
        (initial_clock\<lparr>seconds := 0, gs_timeKeeper := hhmm 0 6 3 0,
           gs_alarmKeeper := hhmm 0 6 3 0, alarm_on_off := ON\<rparr>)) = hhmm 0 6 3 0
   \<and> seconds (run (replicate 59 (Second released))
        (initial_clock\<lparr>seconds := 0, gs_timeKeeper := hhmm 0 6 3 0,
           gs_alarmKeeper := hhmm 0 6 3 0, alarm_on_off := ON\<rparr>)) = 59
   \<and> activations (replicate 59 (Second released))
        (initial_clock\<lparr>seconds := 0, gs_timeKeeper := hhmm 0 6 3 0,
           gs_alarmKeeper := hhmm 0 6 3 0, alarm_on_off := ON\<rparr>) = 0"
  by code_simp

text \<open>
  Claim C5, amended. In a run of the seconds routine with the time set switch not
  pressed, the alarm armed and the four digits of the alarm time equal to those of the
  current time as the run has just advanced it: when the seconds stand at 0 the tone is
  set to 7 and the tone timestamp to the present millisecond count; when the seconds
  stand at 59 or more both are set to 0; otherwise, and in every run where the alarm is
  not due, they are left alone. With the time set switch pressed the alarm is not due
  and the seconds are 0. The seconds reach 0 only in the run that follows second 59,
  the one that advances the time into a new minute: while the current time stays the same
  no activation occurs, so a matching minute has at most one activation, in the run that
  enters it, and none when it is entered another way.
\<close>

theorem alarm_evaluation:
  "alarm_tone (timer_isr p s)
     = (if alarm_due p s
        then (if seconds (timer_isr p s) = 0 then 7
              else if seconds (timer_isr p s) \<ge> 59 then 0 else alarm_tone s)
        else alarm_tone s)
   \<and> prev_milliseconds (timer_isr p s)
     = (if alarm_due p s
        then (if seconds (timer_isr p s) = 0 then milliseconds s
              else if seconds (timer_isr p s) \<ge> 59 then 0 else prev_milliseconds s)
        else prev_milliseconds s)
   \<and> (\<not> SET_T_SWITCH p \<longrightarrow> \<not> alarm_due p s \<and> seconds (timer_isr p s) = 0)
   \<and> (SET_T_SWITCH p \<and> seconds s \<le> 59 \<longrightarrow>
        (seconds (timer_isr p s) = 0) = (seconds s = 59))
   \<and> (seconds u \<le> 59 \<and> before_midnight (gs_timeKeeper u) \<and> same_minute es (step e u) \<longrightarrow>
        activations es (step e u) = 0 \<and> activations (e # es) u \<le> 1)"
proof -
  have a: "\<not> SET_T_SWITCH p \<longrightarrow> \<not> alarm_due p s \<and> seconds (timer_isr p s) = 0"
    by (simp add: alarm_due_def timer_isr_seconds)
  have b: "SET_T_SWITCH p \<and> seconds s \<le> 59 \<longrightarrow>
        (seconds (timer_isr p s) = 0) = (seconds s = 59)"
    using first_second_of_minute [of p s] by blast
  have c: "seconds u \<le> 59 \<and> before_midnight (gs_timeKeeper u) \<and> same_minute es (step e u) \<longrightarrow>
        activations es (step e u) = 0 \<and> activations (e # es) u \<le> 1"
  proof
    assume h: "seconds u \<le> 59 \<and> before_midnight (gs_timeKeeper u) \<and> same_minute es (step e u)"
    then have u: "seconds u \<le> 59" "before_midnight (gs_timeKeeper u)"
      and m: "same_minute es (step e u)"
      by simp_all
    from step_minute_valid [OF u, of e]
    have v: "seconds (step e u) \<le> 59" "before_midnight (gs_timeKeeper (step e u))"
      by simp_all
    have z: "activations es (step e u) = 0"
      by (rule same_minute_no_activation [OF v m])
    then show "activations es (step e u) = 0 \<and> activations (e # es) u \<le> 1"
      by simp
  qed
  from timer_isr_tone [of p s] a b c show ?thesis by blast
qed

theorem alarm_evaluation_witness:
  "alarm_tone (timer_isr released
      (initial_clock\<lparr>seconds := 59, milliseconds := 1234, gs_timeKeeper := hhmm 0 6 2 9,
         gs_alarmKeeper := hhmm 0 6 3 0, alarm_on_off := ON\<rparr>)) = 7
   \<and> prev_milliseconds (timer_isr released
      (initial_clock\<lparr>seconds := 59, milliseconds := 1234, gs_timeKeeper := hhmm 0 6 2 9,
         gs_alarmKeeper := hhmm 0 6 3 0, alarm_on_off := ON\<rparr>)) = 1234
   \<and> seconds (timer_isr released
      (initial_clock\<lparr>seconds := 59, milliseconds := 1234, gs_timeKeeper := hhmm 0 6 2 9,
         gs_alarmKeeper := hhmm 0 6 3 0, alarm_on_off := ON\<rparr>)) = 0
   \<and> activations (replicate 59 (Second released))
        (step (Second released)
          (initial_clock\<lparr>seconds := 59, milliseconds := 1234, gs_timeKeeper := hhmm 0 6 2 9,
             gs_alarmKeeper := hhmm 0 6 3 0, alarm_on_off := ON\<rparr>)) = 0
   \<and> activations (Second released # replicate 59 (Second released))
        (initial_clock\<lparr>seconds := 59, milliseconds := 1234, gs_timeKeeper := hhmm 0 6 2 9,
           gs_alarmKeeper := hhmm 0 6 3 0, alarm_on_off := ON\<rparr>) \<le> 1"
proof -
  let ?s = "initial_clock\<lparr>seconds := 59, milliseconds := 1234, gs_timeKeeper := hhmm 0 6 2 9,
         gs_alarmKeeper := hhmm 0 6 3 0, alarm_on_off := ON\<rparr>"
  let ?es = "replicate 59 (Second released)"
  have h1: "SET_T_SWITCH released" by (simp add: released_def)
  have h2: "seconds ?s \<le> 59" by simp
  have h3: "before_midnight (gs_timeKeeper ?s)"
    by (simp add: before_midnight_def time_ok_def hhmm_def)
  have h4: "same_minute ?es (step (Second released) ?s)" by code_simp
  have ts: "gs_timeKeeper (timer_isr released ?s) = hhmm 0 6 3 0"
    "seconds (timer_isr released ?s) = 0"
    by (simp_all add: timer_isr_timeKeeper timer_isr_seconds h1 timer_rollover_def hhmm_def Let_def)
  have due: "alarm_due released ?s"
    unfolding alarm_due_def ts by (simp add: h1 hhmm_def)
  from alarm_evaluation [of released ?s ?s ?es "Second released"] h1 h2 h3 h4 due ts
  show ?thesis by simp
qed


section \<open>The alarm on/off switch\<close>

lemma toggled_neq: "toggled a \<noteq> a"
  by (simp add: toggled_def ON_def OFF_def)

lemma alarm_switch_pressed_alarm_on_off:
  "alarm_on_off (alarm_switch_pressed s) =
     (if (if switchTimeout s > MIN_DELAY then switchTimeout s else switchTimeout s + 1) = MIN_DELAY
      then toggled (alarm_on_off s) else alarm_on_off s)"
  by (simp add: alarm_switch_pressed_def toggled_def Let_def)

lemma control_isr_alarm_on_off:
  "alarm_on_off (control_isr p s) =
     (if \<not> ALARM_SWITCH p
         \<and> (if switchTimeout s > MIN_DELAY then switchTimeout s else switchTimeout s + 1) = MIN_DELAY
      then toggled (alarm_on_off s) else alarm_on_off s)"
  by (simp add: control_isr_def Let_def tone_sequence_frame alarm_switch_pressed_alarm_on_off
      alarm_set_pressed_frame time_set_pressed_frame)

lemma timer_isr_debounce_frame:
  "alarm_on_off (timer_isr p s) = alarm_on_off s"
  "switchTimeout (timer_isr p s) = switchTimeout s"
  "initTimeout (timer_isr p s) = initTimeout s"
  by (simp_all add: timer_isr_def timer_count_def alarm_check_def Let_def)

lemma toggle_step:
  assumes "\<not> ALARM_SWITCH p"
  shows "unat (switchTimeout (control_isr p s))
           = (if unat (switchTimeout s) > 75 then unat (switchTimeout s)
              else unat (switchTimeout s) + 1)"
    and "alarm_on_off (control_isr p s)
           = (if unat (switchTimeout s) = 74 then toggled (alarm_on_off s) else alarm_on_off s)"
proof -
  have gt: "(switchTimeout s > 75) = (unat (switchTimeout s) > 75)"
    by (simp add: word_less_nat_alt)
  have suc: "\<not> unat (switchTimeout s) > 75 \<Longrightarrow>
      unat (switchTimeout s + 1) = unat (switchTimeout s) + 1"
    by (simp add: unat_succ_small)
  show "unat (switchTimeout (control_isr p s))
           = (if unat (switchTimeout s) > 75 then unat (switchTimeout s)
              else unat (switchTimeout s) + 1)"
    using assms suc by (simp add: control_isr_switchTimeout MIN_DELAY_def gt)
  have eq: "((if switchTimeout s > MIN_DELAY then switchTimeout s else switchTimeout s + 1) = MIN_DELAY)
      = (unat (switchTimeout s) = 74)"
  proof (cases "unat (switchTimeout s) > 75")
    case True
    then show ?thesis by (simp add: gt word_unat_eq_iff MIN_DELAY_def)
  next
    case False
    then show ?thesis using suc by (simp add: gt word_unat_eq_iff MIN_DELAY_def)
  qed
  show "alarm_on_off (control_isr p s)
           = (if unat (switchTimeout s) = 74 then toggled (alarm_on_off s) else alarm_on_off s)"
    using assms by (simp add: control_isr_alarm_on_off eq)
qed

lemma toggle_held_stuck:
  assumes "\<forall>e\<in>set es. toggle_held e"
    and "75 \<le> unat (switchTimeout s)"
  shows "flips es s = 0 \<and> alarm_on_off (run es s) = alarm_on_off s"
  using assms
proof (induction es arbitrary: s)
  case Nil
  then show ?case by simp
next
  case (Cons e es)
  have rest: "\<forall>e\<in>set es. toggle_held e"
    using Cons.prems(1) by simp
  show ?case
  proof (cases e)
    case (Millisecond p)
    have "toggle_held e" using Cons.prems(1) by simp
    then have p: "\<not> ALARM_SWITCH p" unfolding Millisecond by simp
    have a: "75 \<le> unat (switchTimeout (control_isr p s))"
      using Cons.prems(2) by (simp add: toggle_step(1) [OF p])
    have b: "alarm_on_off (control_isr p s) = alarm_on_off s"
      using Cons.prems(2) by (simp add: toggle_step(2) [OF p])
    show ?thesis
      using Cons.IH [OF rest a] by (simp add: Millisecond b)
  next
    case (Second p)
    have a: "75 \<le> unat (switchTimeout (timer_isr p s))"
      using Cons.prems(2) by (simp add: timer_isr_debounce_frame)
    show ?thesis
      using Cons.IH [OF rest a] by (simp add: Second timer_isr_debounce_frame)
  qed
qed

lemma toggle_held_once:
  assumes "\<forall>e\<in>set es. toggle_held e"
    and "unat (switchTimeout s) < 75"
  shows "flips es s = (if unat (switchTimeout s) + ticks es < 75 then 0 else 1)
     \<and> alarm_on_off (run es s)
         = (if unat (switchTimeout s) + ticks es < 75 then alarm_on_off s
            else toggled (alarm_on_off s))"
  using assms
proof (induction es arbitrary: s)
  case Nil
  then show ?case by simp
next
  case (Cons e es)
  have rest: "\<forall>e\<in>set es. toggle_held e"
    using Cons.prems(1) by simp
  show ?case
  proof (cases e)
    case (Second p)
    have a: "unat (switchTimeout (timer_isr p s)) < 75"
      using Cons.prems(2) by (simp add: timer_isr_debounce_frame)
    show ?thesis
      using Cons.IH [OF rest a] by (simp add: Second timer_isr_debounce_frame)
  next
    case (Millisecond p)
    have "toggle_held e" using Cons.prems(1) by simp
    then have p: "\<not> ALARM_SWITCH p" unfolding Millisecond by simp
    have st: "unat (switchTimeout (control_isr p s)) = unat (switchTimeout s) + 1"
      using Cons.prems(2) by (simp add: toggle_step(1) [OF p])
    show ?thesis
    proof (cases "unat (switchTimeout s) = 74")
      case True
      have a: "75 \<le> unat (switchTimeout (control_isr p s))"
        using True by (simp add: st)
      have b: "alarm_on_off (control_isr p s) = toggled (alarm_on_off s)"
        using True by (simp add: toggle_step(2) [OF p])
      show ?thesis
        using toggle_held_stuck [OF rest a] True
        by (simp add: Millisecond b toggled_neq)
    next
      case False
      then have a: "unat (switchTimeout (control_isr p s)) < 75"
        using Cons.prems(2) by (simp add: st)
      have b: "alarm_on_off (control_isr p s) = alarm_on_off s"
        using False by (simp add: toggle_step(2) [OF p])
      show ?thesis
        using Cons.IH [OF rest a] by (simp add: Millisecond b st)
    qed
  qed
qed



lemma ticks_replicate [simp]: "ticks (replicate n (Millisecond p)) = n"
  by (induction n) simp_all

lemma alarm_switch_pressed_disarm:
  assumes "switchTimeout (alarm_switch_pressed s) = MIN_DELAY" and "alarm_on_off s = ON"
  shows "alarm_on_off (alarm_switch_pressed s) = OFF"
    and "alarm_tone (alarm_switch_pressed s) = 0"
    and "prev_milliseconds (alarm_switch_pressed s) = 0"
  using assms by (simp_all add: alarm_switch_pressed_def Let_def split: if_splits)

lemma toggle_flip_tick:
  assumes "\<not> ALARM_SWITCH p"
  shows "(alarm_on_off (control_isr p s) \<noteq> alarm_on_off s)
           = (switchTimeout (control_isr p s) = MIN_DELAY)"
    and "alarm_on_off s = ON \<Longrightarrow> switchTimeout (control_isr p s) = MIN_DELAY
           \<Longrightarrow> alarm_on_off (control_isr p s) = OFF \<and> alarm_tone (control_isr p s) = 0"
proof -
  show "(alarm_on_off (control_isr p s) \<noteq> alarm_on_off s)
           = (switchTimeout (control_isr p s) = MIN_DELAY)"
    using assms
    by (simp add: control_isr_alarm_on_off control_isr_switchTimeout toggled_neq)
  assume on: "alarm_on_off s = ON" and at: "switchTimeout (control_isr p s) = MIN_DELAY"
  let ?s1 = "s\<lparr>milliseconds := milliseconds s + 1\<rparr>"
  have st: "switchTimeout (alarm_switch_pressed ?s1) = MIN_DELAY"
    using at assms by (simp add: control_isr_def Let_def tone_sequence_frame)
  have on1: "alarm_on_off ?s1 = ON" using on by simp
  note d = alarm_switch_pressed_disarm [OF st on1]
  have "tone_sequence (alarm_switch_pressed ?s1) = alarm_switch_pressed ?s1"
    using d(2) by (simp add: tone_sequence_def)
  then show "alarm_on_off (control_isr p s) = OFF \<and> alarm_tone (control_isr p s) = 0"
    using assms d by (simp add: control_isr_def Let_def)
qed

text \<open>
  Claim C6 as stated fails: the hold counter is shared with the set switches. After the
  alarm set switch was held for 80 milliseconds, holding the alarm on/off switch for 80
  milliseconds more never flips the armed flag.
\<close>

theorem toggle_never_flips_counterexample:
  "flips (replicate 80 (Millisecond (released\<lparr>ALARM_SWITCH := False\<rparr>)))
      (run (replicate 80 (Millisecond (released\<lparr>SET_A_SWITCH := False\<rparr>))) initial_clock) = 0
   \<and> alarm_on_off (run (replicate 80 (Millisecond (released\<lparr>SET_A_SWITCH := False\<rparr>))
            @ replicate 80 (Millisecond (released\<lparr>ALARM_SWITCH := False\<rparr>))) initial_clock)
        = alarm_on_off initial_clock"
  by code_simp

text \<open>
  Claim C6, amended. While the alarm on/off switch stays pressed the armed flag flips at
  most once, at the tick where the shared hold counter reaches 75, and never again however
  long the switch is held; when the hold starts with the counter at 0 this is the 75th
  tick. When that flip disarms the alarm, the tone is 0 at the end of the same tick,
  whatever the tone timing.
\<close>

theorem toggle_flips_once:
  assumes "\<forall>e\<in>set es. toggle_held e" and "\<not> ALARM_SWITCH p"
  shows "flips es s \<le> 1
     \<and> (switchTimeout s = 0 \<longrightarrow>
          flips es s = (if ticks es < 75 then 0 else 1)
          \<and> alarm_on_off (run es s)
              = (if ticks es < 75 then alarm_on_off s else toggled (alarm_on_off s)))
     \<and> (alarm_on_off (control_isr p s) \<noteq> alarm_on_off s)
           = (switchTimeout (control_isr p s) = MIN_DELAY)
     \<and> (alarm_on_off s = ON \<and> switchTimeout (control_isr p s) = MIN_DELAY \<longrightarrow>
          alarm_on_off (control_isr p s) = OFF \<and> alarm_tone (control_isr p s) = 0)"
proof -
  have a: "flips es s \<le> 1"
  proof (cases "unat (switchTimeout s) < 75")
    case True
    then show ?thesis using toggle_held_once [OF assms(1), of s] by simp
  next
    case False
    then show ?thesis using toggle_held_stuck [OF assms(1), of s] by simp
  qed
  have b: "switchTimeout s = 0 \<longrightarrow>
          flips es s = (if ticks es < 75 then 0 else 1)
          \<and> alarm_on_off (run es s)
              = (if ticks es < 75 then alarm_on_off s else toggled (alarm_on_off s))"
  proof
    assume "switchTimeout s = 0"
    then have "unat (switchTimeout s) = 0" by simp
    then show "flips es s = (if ticks es < 75 then 0 else 1)
          \<and> alarm_on_off (run es s)
              = (if ticks es < 75 then alarm_on_off s else toggled (alarm_on_off s))"
      using toggle_held_once [OF assms(1), of s] by simp
  qed
  show ?thesis
    using a b toggle_flip_tick [OF assms(2), of s] by blast
qed

theorem toggle_flips_once_witness:
  "flips (replicate 200 (Millisecond (released\<lparr>ALARM_SWITCH := False\<rparr>)))
      (initial_clock\<lparr>alarm_on_off := ON, alarm_tone := 7\<rparr>) = 1
   \<and> alarm_on_off (run (replicate 200 (Millisecond (released\<lparr>ALARM_SWITCH := False\<rparr>)))
        (initial_clock\<lparr>alarm_on_off := ON, alarm_tone := 7\<rparr>)) = OFF
   \<and> alarm_tone (control_isr (released\<lparr>ALARM_SWITCH := False\<rparr>)
        (initial_clock\<lparr>switchTimeout := 74, alarm_on_off := ON, alarm_tone := 7\<rparr>)) = 0"
proof -
  let ?p = "released\<lparr>ALARM_SWITCH := False\<rparr>"
  let ?es = "replicate 200 (Millisecond ?p)"
  let ?s = "initial_clock\<lparr>alarm_on_off := ON, alarm_tone := 7\<rparr>"
  let ?u = "initial_clock\<lparr>switchTimeout := 74, alarm_on_off := ON, alarm_tone := 7\<rparr>"
  have h1: "\<forall>e\<in>set ?es. toggle_held e" by simp
  have h2: "\<not> ALARM_SWITCH ?p" by simp
  have z: "switchTimeout ?s = 0" by (simp add: initial_clock_def)
  have on: "alarm_on_off ?u = ON" by simp
  have at: "switchTimeout (control_isr ?p ?u) = MIN_DELAY"
    by (simp add: control_isr_switchTimeout MIN_DELAY_def)
  from toggle_flips_once [OF h1 h2, of ?s] z
  have "flips ?es ?s = 1" "alarm_on_off (run ?es ?s) = OFF"
    by (simp_all add: toggled_def)
  moreover from toggle_flips_once [OF h1 h2, of ?u] on at
  have "alarm_tone (control_isr ?p ?u) = 0" by blast
  ultimately show ?thesis by simp
qed


section \<open>Debounce and repeat\<close>

lemma tone_sequence_debounce:
  "tone_sequence (s\<lparr>switchTimeout := a\<rparr>) = (tone_sequence s)\<lparr>switchTimeout := a\<rparr>"
  "tone_sequence (s\<lparr>initTimeout := b\<rparr>) = (tone_sequence s)\<lparr>initTimeout := b\<rparr>"
  by (simp_all add: tone_sequence_def)

lemma alarm_switch_pressed_quiet:
  "(if switchTimeout s > MIN_DELAY then switchTimeout s else switchTimeout s + 1) \<noteq> MIN_DELAY
   \<Longrightarrow> alarm_switch_pressed s
       = s\<lparr>switchTimeout := (if switchTimeout s > MIN_DELAY then switchTimeout s
                               else switchTimeout s + 1)\<rparr>"
  by (simp add: alarm_switch_pressed_def Let_def)

lemma alarm_set_pressed_quiet:
  "\<not> ((\<not> MINUTE_SWITCH p \<or> \<not> HOUR_SWITCH p) \<and> switchTimeout s + 1 > initTimeout s)
   \<Longrightarrow> alarm_set_pressed p s
       = s\<lparr>switchTimeout := switchTimeout s + 1,
            initTimeout := (if MINUTE_SWITCH p \<and> HOUR_SWITCH p then INIT_DELAY else initTimeout s)\<rparr>"
  by (auto simp: alarm_set_pressed_def Let_def)

lemma time_set_pressed_quiet:
  "\<not> ((\<not> MINUTE_SWITCH p \<or> \<not> HOUR_SWITCH p) \<and> switchTimeout s + 1 > initTimeout s)
   \<Longrightarrow> time_set_pressed p s
       = s\<lparr>switchTimeout := switchTimeout s + 1,
            initTimeout := (if MINUTE_SWITCH p \<and> HOUR_SWITCH p then INIT_DELAY else initTimeout s)\<rparr>"
  by (auto simp: time_set_pressed_def Let_def)

lemma control_isr_released:
  "control_isr released s
     = (let s3 = tone_sequence (s\<lparr>milliseconds := milliseconds s + 1\<rparr>)
        in s3\<lparr>digitSelect := (if digitSelect s3 < push_bit 3 1
                                then push_bit 1 (digitSelect s3) else 1),
              switchTimeout := 0, initTimeout := INIT_DELAY\<rparr>)"
  by (simp add: control_isr_def released_def Let_def tone_sequence_debounce tone_sequence_frame)

lemma control_isr_quiet:
  assumes "\<not> acts p s"
  shows "control_isr p s
           = (control_isr released s)\<lparr>switchTimeout := switchTimeout (control_isr p s),
                initTimeout := initTimeout (control_isr p s)\<rparr>"
proof -
  let ?s1 = "s\<lparr>milliseconds := milliseconds s + 1\<rparr>"
  have "\<exists>a b. (if \<not> ALARM_SWITCH p then alarm_switch_pressed ?s1
                else if \<not> SET_A_SWITCH p then alarm_set_pressed p ?s1
                else if \<not> SET_T_SWITCH p then time_set_pressed p ?s1
                else ?s1\<lparr>switchTimeout := 0, initTimeout := INIT_DELAY\<rparr>)
           = ?s1\<lparr>switchTimeout := a, initTimeout := b\<rparr>"
  proof (cases "ALARM_SWITCH p")
    case False
    then have q: "(if switchTimeout ?s1 > MIN_DELAY then switchTimeout ?s1
        else switchTimeout ?s1 + 1) \<noteq> MIN_DELAY"
      using assms by (auto simp: acts_def split: if_splits)
    from alarm_switch_pressed_quiet [OF q]
    have "alarm_switch_pressed ?s1 = ?s1\<lparr>switchTimeout :=
        (if switchTimeout ?s1 > MIN_DELAY then switchTimeout ?s1 else switchTimeout ?s1 + 1),
        initTimeout := initTimeout ?s1\<rparr>"
      by simp
    then show ?thesis using False by (simp only: if_True simp_thms) blast
  next
    case a: True
    show ?thesis
    proof (cases "SET_A_SWITCH p")
      case False
      then have "\<not> ((\<not> MINUTE_SWITCH p \<or> \<not> HOUR_SWITCH p)
          \<and> switchTimeout ?s1 + 1 > initTimeout ?s1)"
        using assms a by (simp add: acts_def)
      from alarm_set_pressed_quiet [OF this] show ?thesis
        using a False by (simp only: if_True if_False simp_thms) blast
    next
      case sa: True
      show ?thesis
      proof (cases "SET_T_SWITCH p")
        case False
        then have "\<not> ((\<not> MINUTE_SWITCH p \<or> \<not> HOUR_SWITCH p)
            \<and> switchTimeout ?s1 + 1 > initTimeout ?s1)"
          using assms a by (simp add: acts_def)
        from time_set_pressed_quiet [OF this] show ?thesis
          using a sa False by (simp only: if_True if_False simp_thms) blast
      next
        case True
        then show ?thesis using a sa by (simp only: if_True if_False simp_thms) blast
      qed
    qed
  qed
  then obtain a b where "(if \<not> ALARM_SWITCH p then alarm_switch_pressed ?s1
                else if \<not> SET_A_SWITCH p then alarm_set_pressed p ?s1
                else if \<not> SET_T_SWITCH p then time_set_pressed p ?s1
                else ?s1\<lparr>switchTimeout := 0, initTimeout := INIT_DELAY\<rparr>)
           = ?s1\<lparr>switchTimeout := a, initTimeout := b\<rparr>" by blast
  then have "control_isr p s = (control_isr released s)\<lparr>switchTimeout := a, initTimeout := b\<rparr>"
    unfolding control_isr_released
    by (simp add: control_isr_def Let_def tone_sequence_debounce tone_sequence_frame)
  then show ?thesis by simp
qed


lemma tone_sequence_erase:
  "tone_sequence (x\<lparr>switchTimeout := a, initTimeout := b, milliseconds := m\<rparr>)
     = (tone_sequence (x\<lparr>milliseconds := m\<rparr>))\<lparr>switchTimeout := a, initTimeout := b\<rparr>"
  by (simp add: tone_sequence_def)

lemma control_isr_released_erase:
  "control_isr released (x\<lparr>switchTimeout := a, initTimeout := b\<rparr>) = control_isr released x"
  by (simp add: control_isr_released tone_sequence_erase tone_sequence_frame Let_def)

lemma idle_erase:
  "(run (idle n) (x\<lparr>switchTimeout := a, initTimeout := b\<rparr>))\<lparr>switchTimeout := c, initTimeout := d\<rparr>
     = (run (idle n) x)\<lparr>switchTimeout := c, initTimeout := d\<rparr>"
  by (cases n) (simp_all add: idle_def control_isr_released_erase)

lemma idle_Suc: "run (idle (Suc n)) s = run (idle n) (control_isr released s)"
  by (simp add: idle_def)

lemma quiet_run:
  assumes "actions ps s = 0"
  shows "run (map Millisecond ps) s
           = (run (idle (length ps)) s)\<lparr>switchTimeout := switchTimeout (run (map Millisecond ps) s),
                initTimeout := initTimeout (run (map Millisecond ps) s)\<rparr>"
  using assms
proof (induction ps arbitrary: s)
  case Nil
  then show ?case by (simp add: idle_def)
next
  case (Cons p ps)
  from Cons.prems have q: "\<not> acts p s" and r: "actions ps (control_isr p s) = 0"
    by (simp_all split: if_splits)
  let ?r = "run (map Millisecond ps) (control_isr p s)"
  have "?r = (run (idle (length ps)) (control_isr p s))
               \<lparr>switchTimeout := switchTimeout ?r, initTimeout := initTimeout ?r\<rparr>"
    by (rule Cons.IH [OF r])
  also have "\<dots> = (run (idle (length ps)) (control_isr released s))
               \<lparr>switchTimeout := switchTimeout ?r, initTimeout := initTimeout ?r\<rparr>"
    by (subst control_isr_quiet [OF q]) (rule idle_erase)
  finally show ?case by (simp add: idle_Suc)
qed

lemma idle_frame:
  "gs_timeKeeper (run (idle n) s) = gs_timeKeeper s"
  "gs_alarmKeeper (run (idle n) s) = gs_alarmKeeper s"
  "alarm_on_off (run (idle n) s) = alarm_on_off s"
proof (induction n arbitrary: s)
  case 0
  {
    case 1 show ?case by (simp add: idle_def)
  next
    case 2 show ?case by (simp add: idle_def)
  next
    case 3 show ?case by (simp add: idle_def)
  }
next
  case (Suc n)
  have r: "ALARM_SWITCH released" "SET_A_SWITCH released" "SET_T_SWITCH released"
    by (simp_all add: released_def)
  {
    case 1 show ?case by (simp add: idle_Suc Suc.IH control_isr_timeKeeper r)
  next
    case 2 show ?case by (simp add: idle_Suc Suc.IH control_isr_alarmKeeper r)
  next
    case 3 show ?case by (simp add: idle_Suc Suc.IH control_isr_alarm_on_off r)
  }
qed

lemma one_action_per_tick:
  "(alarm_on_off (control_isr p s) \<noteq> alarm_on_off s \<longrightarrow>
       gs_alarmKeeper (control_isr p s) = gs_alarmKeeper s
       \<and> gs_timeKeeper (control_isr p s) = gs_timeKeeper s)
   \<and> (gs_alarmKeeper (control_isr p s) \<noteq> gs_alarmKeeper s \<longrightarrow>
       gs_timeKeeper (control_isr p s) = gs_timeKeeper s
       \<and> gs_alarmKeeper (control_isr p s) = alarm_set_rollover (add_pressed p (gs_alarmKeeper s)))
   \<and> (gs_timeKeeper (control_isr p s) \<noteq> gs_timeKeeper s \<longrightarrow>
       gs_timeKeeper (control_isr p s) = time_set_rollover (add_pressed p (gs_timeKeeper s)))"
  by (simp add: control_isr_alarm_on_off control_isr_alarmKeeper control_isr_timeKeeper)

lemma acts_toggle:
  assumes "\<not> ALARM_SWITCH p"
  shows "acts p s = (alarm_on_off (control_isr p s) \<noteq> alarm_on_off s)"
  using assms by (simp add: acts_def control_isr_alarm_on_off toggled_neq)

lemma toggle_actions:
  assumes "\<forall>p\<in>set ps. \<not> ALARM_SWITCH p"
  shows "actions ps s = flips (map Millisecond ps) s"
  using assms
proof (induction ps arbitrary: s)
  case Nil
  then show ?case by simp
next
  case (Cons p ps)
  then have p: "\<not> ALARM_SWITCH p" and ps: "\<forall>p\<in>set ps. \<not> ALARM_SWITCH p"
    by simp_all
  show ?case
    by (simp add: Cons.IH [OF ps] acts_toggle [OF p])
qed

lemma ticks_map_Millisecond [simp]: "ticks (map Millisecond ps) = length ps"
  by (induction ps) simp_all

lemma control_isr_initTimeout:
  "initTimeout (control_isr p s) =
     (if \<not> ALARM_SWITCH p then initTimeout s
      else if \<not> SET_A_SWITCH p \<or> \<not> SET_T_SWITCH p
      then (if MINUTE_SWITCH p \<and> HOUR_SWITCH p then INIT_DELAY
            else if switchTimeout s + 1 > initTimeout s
            then (if initTimeout s > MIN_DELAY then initTimeout s - RAMP_DELAY else initTimeout s)
            else initTimeout s)
      else INIT_DELAY)"
  by (simp add: control_isr_def Let_def tone_sequence_frame alarm_switch_pressed_frame
      alarm_set_pressed_def time_set_pressed_def)


lemma run_append: "run (xs @ ys) s = run ys (run xs s)"
  by (induction xs arbitrary: s) simp_all

lemma actions_append: "actions (xs @ ys) s = actions xs s + actions ys (run (map Millisecond xs) s)"
  by (induction xs arbitrary: s) simp_all

lemma unat_u8_le: "unat (w::uint8_t) \<le> 255"
  using unsigned_less [of w, where ?'a = nat] by simp

lemma set_step_quiet:
  assumes "set_mode p" and "MINUTE_SWITCH p \<and> HOUR_SWITCH p \<longrightarrow> initTimeout s = INIT_DELAY"
    and "unat (switchTimeout s) < unat (initTimeout s)"
  shows "\<not> acts p s"
    and "unat (switchTimeout (control_isr p s)) = unat (switchTimeout s) + 1"
    and "initTimeout (control_isr p s) = initTimeout s"
proof -
  have "unat (switchTimeout s) < 255"
    using assms(3) unat_u8_le [of "initTimeout s"] by simp
  then have suc: "unat (switchTimeout s + 1) = unat (switchTimeout s) + 1"
    by (rule unat_succ_small)
  have no: "\<not> switchTimeout s + 1 > initTimeout s"
    using assms(3) by (simp add: word_less_nat_alt suc)
  show "\<not> acts p s"
    using assms(1) no by (simp add: acts_def set_mode_def)
  show "unat (switchTimeout (control_isr p s)) = unat (switchTimeout s) + 1"
    using assms(1) no by (simp add: control_isr_switchTimeout set_mode_def suc)
  show "initTimeout (control_isr p s) = initTimeout s"
    using assms(1,2) no by (simp add: control_isr_initTimeout set_mode_def)
qed

lemma set_step_accept:
  assumes "increment_held p" and "unat (switchTimeout s) = unat (initTimeout s)"
    and "unat (initTimeout s) < 255"
  shows "acts p s"
    and "switchTimeout (control_isr p s) = 0"
    and "initTimeout (control_isr p s)
           = (if initTimeout s > MIN_DELAY then initTimeout s - RAMP_DELAY else initTimeout s)"
proof -
  have suc: "unat (switchTimeout s + 1) = unat (switchTimeout s) + 1"
    using assms(2,3) by (simp add: unat_succ_small)
  have yes: "switchTimeout s + 1 > initTimeout s"
    using assms(2) by (simp add: word_less_nat_alt suc)
  have m: "ALARM_SWITCH p" "\<not> SET_A_SWITCH p \<or> \<not> SET_T_SWITCH p"
    "\<not> MINUTE_SWITCH p \<or> \<not> HOUR_SWITCH p"
    using assms(1) by (simp_all add: increment_held_def set_mode_def)
  show "acts p s"
    using m yes by (simp add: acts_def)
  show "switchTimeout (control_isr p s) = 0"
    using m yes by (simp add: control_isr_switchTimeout)
  show "initTimeout (control_isr p s)
           = (if initTimeout s > MIN_DELAY then initTimeout s - RAMP_DELAY else initTimeout s)"
    using m yes by (auto simp: control_isr_initTimeout)
qed

lemma set_quiet_run:
  assumes "\<forall>p\<in>set ps. set_mode p \<and> (MINUTE_SWITCH p \<and> HOUR_SWITCH p \<longrightarrow> initTimeout s = INIT_DELAY)"
    and "unat (switchTimeout s) + length ps \<le> unat (initTimeout s)"
  shows "actions ps s = 0
     \<and> unat (switchTimeout (run (map Millisecond ps) s)) = unat (switchTimeout s) + length ps
     \<and> initTimeout (run (map Millisecond ps) s) = initTimeout s"
  using assms
proof (induction ps arbitrary: s)
  case Nil
  then show ?case by simp
next
  case (Cons p ps)
  have p: "set_mode p" "MINUTE_SWITCH p \<and> HOUR_SWITCH p \<longrightarrow> initTimeout s = INIT_DELAY"
    using Cons.prems(1) by simp_all
  have lt: "unat (switchTimeout s) < unat (initTimeout s)"
    using Cons.prems(2) by simp
  note q = set_step_quiet [OF p lt]
  have ps': "\<forall>q\<in>set ps. set_mode q
      \<and> (MINUTE_SWITCH q \<and> HOUR_SWITCH q \<longrightarrow> initTimeout (control_isr p s) = INIT_DELAY)"
    using Cons.prems(1) by (simp add: q(3))
  have le: "unat (switchTimeout (control_isr p s)) + length ps \<le> unat (initTimeout (control_isr p s))"
    using Cons.prems(2) by (simp add: q(2,3))
  show ?case
    using Cons.IH [OF ps' le] q by simp
qed








lemma quiet_run_frame:
  assumes "actions ps s = 0"
  shows "gs_timeKeeper (run (map Millisecond ps) s) = gs_timeKeeper s"
    and "gs_alarmKeeper (run (map Millisecond ps) s) = gs_alarmKeeper s"
    and "alarm_on_off (run (map Millisecond ps) s) = alarm_on_off s"
    and "alarm_tone (run (map Millisecond ps) s) = alarm_tone (run (idle (length ps)) s)"
proof -
  note eq = quiet_run [OF assms]
  from arg_cong [OF eq, of gs_timeKeeper]
  show "gs_timeKeeper (run (map Millisecond ps) s) = gs_timeKeeper s"
    by (simp add: idle_frame)
  from arg_cong [OF eq, of gs_alarmKeeper]
  show "gs_alarmKeeper (run (map Millisecond ps) s) = gs_alarmKeeper s"
    by (simp add: idle_frame)
  from arg_cong [OF eq, of alarm_on_off]
  show "alarm_on_off (run (map Millisecond ps) s) = alarm_on_off s"
    by (simp add: idle_frame)
  from arg_cong [OF eq, of alarm_tone]
  show "alarm_tone (run (map Millisecond ps) s) = alarm_tone (run (idle (length ps)) s)"
    by simp
qed

lemma toggle_press_actions:
  assumes "\<forall>q\<in>set ts. \<not> ALARM_SWITCH q" and "switchTimeout s = 0"
  shows "actions ts s = (if length ts < 75 then 0 else 1)"
    and "alarm_on_off (run (map Millisecond ts) s)
           = (if length ts < 75 then alarm_on_off s else toggled (alarm_on_off s))"
proof -
  have h: "\<forall>e\<in>set (map Millisecond ts). toggle_held e"
    using assms(1) by auto
  have z: "unat (switchTimeout s) < 75" "unat (switchTimeout s) = 0"
    using assms(2) by simp_all
  note o = toggle_held_once [OF h z(1)]
  show "actions ts s = (if length ts < 75 then 0 else 1)"
    using o by (simp add: toggle_actions [OF assms(1)] z(2))
  show "alarm_on_off (run (map Millisecond ts) s)
           = (if length ts < 75 then alarm_on_off s else toggled (alarm_on_off s))"
    using o by (simp add: z(2))
qed

lemma set_press_accept:
  assumes "\<forall>q\<in>set ps. set_mode q" and "increment_held p"
    and "switchTimeout s = 0" and "initTimeout s = INIT_DELAY" and "length ps = 125"
  shows "actions (ps @ [p]) s = 1"
    and "gs_alarmKeeper (run (map Millisecond (ps @ [p])) s)
           = (if \<not> SET_A_SWITCH p then alarm_set_rollover (add_pressed p (gs_alarmKeeper s))
              else gs_alarmKeeper s)"
    and "gs_timeKeeper (run (map Millisecond (ps @ [p])) s)
           = (if \<not> SET_A_SWITCH p then gs_timeKeeper s
              else time_set_rollover (add_pressed p (gs_timeKeeper s)))"
proof -
  let ?t = "run (map Millisecond ps) s"
  have hold: "\<forall>p\<in>set ps. set_mode p
      \<and> (MINUTE_SWITCH p \<and> HOUR_SWITCH p \<longrightarrow> initTimeout s = INIT_DELAY)"
    using assms(1,4) by simp
  have le: "unat (switchTimeout s) + length ps \<le> unat (initTimeout s)"
    using assms(3,4,5) by (simp add: INIT_DELAY_def)
  from set_quiet_run [OF hold le]
  have q: "actions ps s = 0" "unat (switchTimeout ?t) = unat (initTimeout ?t)"
    "initTimeout ?t = initTimeout s"
    using assms(3,4,5) by (simp_all add: INIT_DELAY_def)
  have b: "unat (initTimeout ?t) < 255"
    using assms(4) by (simp add: q(3) INIT_DELAY_def)
  note a = set_step_accept [OF assms(2) q(2) b]
  have m: "ALARM_SWITCH p" "\<not> SET_A_SWITCH p \<or> \<not> SET_T_SWITCH p"
    "\<not> MINUTE_SWITCH p \<or> \<not> HOUR_SWITCH p"
    using assms(2) by (simp_all add: increment_held_def set_mode_def)
  have yes: "switchTimeout ?t + 1 > initTimeout ?t"
    using a(1) m by (simp add: acts_def)
  have e: "run (map Millisecond (ps @ [p])) s = control_isr p ?t"
    by (simp add: run_append)
  show "actions (ps @ [p]) s = 1"
    using q(1) a(1) by (simp add: actions_append)
  show "gs_alarmKeeper (run (map Millisecond (ps @ [p])) s)
           = (if \<not> SET_A_SWITCH p then alarm_set_rollover (add_pressed p (gs_alarmKeeper s))
              else gs_alarmKeeper s)"
    unfolding e using m yes
    by (simp add: control_isr_alarmKeeper quiet_run_frame [OF q(1)])
  show "gs_timeKeeper (run (map Millisecond (ps @ [p])) s)
           = (if \<not> SET_A_SWITCH p then gs_timeKeeper s
              else time_set_rollover (add_pressed p (gs_timeKeeper s)))"
    unfolding e using m yes
    by (auto simp: control_isr_timeKeeper quiet_run_frame [OF q(1)])
qed

lemma set_press_quiet:
  assumes "\<forall>q\<in>set ps. set_mode q"
    and "switchTimeout s = 0" and "initTimeout s = INIT_DELAY" and "length ps \<le> 125"
  shows "actions ps s = 0"
proof -
  have hold: "\<forall>p\<in>set ps. set_mode p
      \<and> (MINUTE_SWITCH p \<and> HOUR_SWITCH p \<longrightarrow> initTimeout s = INIT_DELAY)"
    using assms(1,3) by simp
  have le: "unat (switchTimeout s) + length ps \<le> unat (initTimeout s)"
    using assms(2,3,4) by (simp add: INIT_DELAY_def)
  from set_quiet_run [OF hold le] show ?thesis by simp
qed

text \<open>
  Claim C4 as stated fails. The hold counter is shared: after the alarm set switch was
  held for 74 milliseconds, a press of the alarm on/off switch of one millisecond flips
  the armed flag. And an increment held for exactly the threshold of 125 milliseconds
  is not accepted yet: the time is unchanged.
\<close>

theorem short_press_counterexample:
  "alarm_on_off (run (replicate 74 (Millisecond (released\<lparr>SET_A_SWITCH := False\<rparr>))
        @ [Millisecond (released\<lparr>ALARM_SWITCH := False\<rparr>)]) initial_clock)
     \<noteq> alarm_on_off (run (replicate 74 (Millisecond (released\<lparr>SET_A_SWITCH := False\<rparr>)))
        initial_clock)
   \<and> gs_timeKeeper (run (replicate 125
        (Millisecond (released\<lparr>SET_T_SWITCH := False, MINUTE_SWITCH := False\<rparr>))) initial_clock)
     = gs_timeKeeper initial_clock"
  by code_simp

text \<open>
  Claim C4, amended. Starting with the hold counter at 0 and the repeat threshold at 125,
  as every tick without a pressed switch leaves them: while the alarm on/off switch is
  held for fewer than 75 ticks nothing acts, and the state differs from the state after
  as many idle ticks in the two switch counters only (time, alarm time and armed flag
  are unchanged, the tone is what it would be without the press); held for 75 ticks it
  acts exactly once and flips the armed flag. In a set mode nothing acts during the
  first 125 ticks, whatever the minute and hour switches do; with an increment held at
  the next tick, the 126th, exactly one action occurs and applies one increment to the
  selected time. In any state one tick changes at most one of the armed flag, the alarm
  time and the current time, and a changed time is one application of the increment.
\<close>

theorem debounce_from_released:
  assumes "\<forall>q\<in>set ts. \<not> ALARM_SWITCH q"
    and "\<forall>q\<in>set ps. set_mode q" and "increment_held p"
    and "switchTimeout s = 0" and "initTimeout s = INIT_DELAY"
  shows "(length ts < 75 \<longrightarrow>
            actions ts s = 0
            \<and> run (map Millisecond ts) s
                = (run (idle (length ts)) s)
                    \<lparr>switchTimeout := switchTimeout (run (map Millisecond ts) s),
                     initTimeout := initTimeout (run (map Millisecond ts) s)\<rparr>
            \<and> gs_timeKeeper (run (map Millisecond ts) s) = gs_timeKeeper s
            \<and> gs_alarmKeeper (run (map Millisecond ts) s) = gs_alarmKeeper s
            \<and> alarm_on_off (run (map Millisecond ts) s) = alarm_on_off s
            \<and> alarm_tone (run (map Millisecond ts) s) = alarm_tone (run (idle (length ts)) s))
     \<and> (length ts = 75 \<longrightarrow>
            actions ts s = 1
            \<and> alarm_on_off (run (map Millisecond ts) s) = toggled (alarm_on_off s))
     \<and> (length ps \<le> 125 \<longrightarrow>
            actions ps s = 0
            \<and> run (map Millisecond ps) s
                = (run (idle (length ps)) s)
                    \<lparr>switchTimeout := switchTimeout (run (map Millisecond ps) s),
                     initTimeout := initTimeout (run (map Millisecond ps) s)\<rparr>
            \<and> gs_timeKeeper (run (map Millisecond ps) s) = gs_timeKeeper s
            \<and> gs_alarmKeeper (run (map Millisecond ps) s) = gs_alarmKeeper s
            \<and> alarm_on_off (run (map Millisecond ps) s) = alarm_on_off s
            \<and> alarm_tone (run (map Millisecond ps) s) = alarm_tone (run (idle (length ps)) s))
     \<and> (length ps = 125 \<longrightarrow>
            actions (ps @ [p]) s = 1
            \<and> gs_alarmKeeper (run (map Millisecond (ps @ [p])) s)
                = (if \<not> SET_A_SWITCH p then alarm_set_rollover (add_pressed p (gs_alarmKeeper s))
                   else gs_alarmKeeper s)
            \<and> gs_timeKeeper (run (map Millisecond (ps @ [p])) s)
                = (if \<not> SET_A_SWITCH p then gs_timeKeeper s
                   else time_set_rollover (add_pressed p (gs_timeKeeper s))))
     \<and> (alarm_on_off (control_isr q u) \<noteq> alarm_on_off u \<longrightarrow>
            gs_alarmKeeper (control_isr q u) = gs_alarmKeeper u
            \<and> gs_timeKeeper (control_isr q u) = gs_timeKeeper u)
     \<and> (gs_alarmKeeper (control_isr q u) \<noteq> gs_alarmKeeper u \<longrightarrow>
            gs_timeKeeper (control_isr q u) = gs_timeKeeper u
            \<and> gs_alarmKeeper (control_isr q u) = alarm_set_rollover (add_pressed q (gs_alarmKeeper u)))
     \<and> (gs_timeKeeper (control_isr q u) \<noteq> gs_timeKeeper u \<longrightarrow>
            gs_timeKeeper (control_isr q u) = time_set_rollover (add_pressed q (gs_timeKeeper u)))
     \<and> switchTimeout (control_isr released u) = 0
     \<and> initTimeout (control_isr released u) = INIT_DELAY"
proof -
  have e: "switchTimeout (control_isr released u) = 0"
    "initTimeout (control_isr released u) = INIT_DELAY"
    by (simp_all add: control_isr_released Let_def)
  note t = toggle_press_actions [OF assms(1,4)]
  have a: "length ts < 75 \<longrightarrow>
            actions ts s = 0
            \<and> run (map Millisecond ts) s
                = (run (idle (length ts)) s)
                    \<lparr>switchTimeout := switchTimeout (run (map Millisecond ts) s),
                     initTimeout := initTimeout (run (map Millisecond ts) s)\<rparr>
            \<and> gs_timeKeeper (run (map Millisecond ts) s) = gs_timeKeeper s
            \<and> gs_alarmKeeper (run (map Millisecond ts) s) = gs_alarmKeeper s
            \<and> alarm_on_off (run (map Millisecond ts) s) = alarm_on_off s
            \<and> alarm_tone (run (map Millisecond ts) s) = alarm_tone (run (idle (length ts)) s)"
  proof
    assume "length ts < 75"
    then have z: "actions ts s = 0" using t(1) by simp
    from z quiet_run [OF z] quiet_run_frame [OF z]
    show "actions ts s = 0
            \<and> run (map Millisecond ts) s
                = (run (idle (length ts)) s)
                    \<lparr>switchTimeout := switchTimeout (run (map Millisecond ts) s),
                     initTimeout := initTimeout (run (map Millisecond ts) s)\<rparr>
            \<and> gs_timeKeeper (run (map Millisecond ts) s) = gs_timeKeeper s
            \<and> gs_alarmKeeper (run (map Millisecond ts) s) = gs_alarmKeeper s
            \<and> alarm_on_off (run (map Millisecond ts) s) = alarm_on_off s
            \<and> alarm_tone (run (map Millisecond ts) s) = alarm_tone (run (idle (length ts)) s)"
      by blast
  qed
  have b: "length ts = 75 \<longrightarrow>
            actions ts s = 1
            \<and> alarm_on_off (run (map Millisecond ts) s) = toggled (alarm_on_off s)"
    using t by simp
  have c: "length ps \<le> 125 \<longrightarrow>
            actions ps s = 0
            \<and> run (map Millisecond ps) s
                = (run (idle (length ps)) s)
                    \<lparr>switchTimeout := switchTimeout (run (map Millisecond ps) s),
                     initTimeout := initTimeout (run (map Millisecond ps) s)\<rparr>
            \<and> gs_timeKeeper (run (map Millisecond ps) s) = gs_timeKeeper s
            \<and> gs_alarmKeeper (run (map Millisecond ps) s) = gs_alarmKeeper s
            \<and> alarm_on_off (run (map Millisecond ps) s) = alarm_on_off s
            \<and> alarm_tone (run (map Millisecond ps) s) = alarm_tone (run (idle (length ps)) s)"
  proof
    assume "length ps \<le> 125"
    from set_press_quiet [OF assms(2,4,5) this] have z: "actions ps s = 0" .
    from z quiet_run [OF z] quiet_run_frame [OF z]
    show "actions ps s = 0
            \<and> run (map Millisecond ps) s
                = (run (idle (length ps)) s)
                    \<lparr>switchTimeout := switchTimeout (run (map Millisecond ps) s),
                     initTimeout := initTimeout (run (map Millisecond ps) s)\<rparr>
            \<and> gs_timeKeeper (run (map Millisecond ps) s) = gs_timeKeeper s
            \<and> gs_alarmKeeper (run (map Millisecond ps) s) = gs_alarmKeeper s
            \<and> alarm_on_off (run (map Millisecond ps) s) = alarm_on_off s
            \<and> alarm_tone (run (map Millisecond ps) s) = alarm_tone (run (idle (length ps)) s)"
      by blast
  qed
  have d: "length ps = 125 \<longrightarrow>
            actions (ps @ [p]) s = 1
            \<and> gs_alarmKeeper (run (map Millisecond (ps @ [p])) s)
                = (if \<not> SET_A_SWITCH p then alarm_set_rollover (add_pressed p (gs_alarmKeeper s))
                   else gs_alarmKeeper s)
            \<and> gs_timeKeeper (run (map Millisecond (ps @ [p])) s)
                = (if \<not> SET_A_SWITCH p then gs_timeKeeper s
                   else time_set_rollover (add_pressed p (gs_timeKeeper s)))"
    using set_press_accept [OF assms(2,3,4,5)] by blast
  from a b c d one_action_per_tick [of q u] e
  show ?thesis by blast
qed


theorem debounce_from_released_witness:
  "actions (replicate 74 (released\<lparr>ALARM_SWITCH := False\<rparr>)) initial_clock = 0
   \<and> alarm_on_off (run (map Millisecond (replicate 74 (released\<lparr>ALARM_SWITCH := False\<rparr>)))
        initial_clock) = OFF
   \<and> actions (replicate 75 (released\<lparr>ALARM_SWITCH := False\<rparr>)) initial_clock = 1
   \<and> alarm_on_off (run (map Millisecond (replicate 75 (released\<lparr>ALARM_SWITCH := False\<rparr>)))
        initial_clock) = ON
   \<and> actions (replicate 125 (released\<lparr>SET_T_SWITCH := False, MINUTE_SWITCH := False\<rparr>))
        initial_clock = 0
   \<and> gs_timeKeeper (run (map Millisecond
        (replicate 125 (released\<lparr>SET_T_SWITCH := False, MINUTE_SWITCH := False\<rparr>)))
        initial_clock) = hhmm 0 0 0 0
   \<and> actions (replicate 125 (released\<lparr>SET_T_SWITCH := False, MINUTE_SWITCH := False\<rparr>)
        @ [released\<lparr>SET_T_SWITCH := False, MINUTE_SWITCH := False\<rparr>]) initial_clock = 1
   \<and> gs_timeKeeper (run (map Millisecond
        (replicate 125 (released\<lparr>SET_T_SWITCH := False, MINUTE_SWITCH := False\<rparr>)
          @ [released\<lparr>SET_T_SWITCH := False, MINUTE_SWITCH := False\<rparr>]))
        initial_clock) = hhmm 0 0 0 1"
proof -
  let ?t = "released\<lparr>ALARM_SWITCH := False\<rparr>"
  let ?p = "released\<lparr>SET_T_SWITCH := False, MINUTE_SWITCH := False\<rparr>"
  have t74: "\<forall>q\<in>set (replicate 74 ?t). \<not> ALARM_SWITCH q"
    and t75: "\<forall>q\<in>set (replicate 75 ?t). \<not> ALARM_SWITCH q"
    by simp_all
  have h: "increment_held ?p" and m: "set_mode ?p"
    by (simp_all add: increment_held_def set_mode_def released_def)
  from m have hs: "\<forall>q\<in>set (replicate 125 ?p). set_mode q" by simp
  have z: "switchTimeout initial_clock = 0" "initTimeout initial_clock = INIT_DELAY"
    by (simp_all add: initial_clock_def)
  have l: "length (replicate 74 ?t) < 75" "length (replicate 75 ?t) = 75"
    "length (replicate 125 ?p) \<le> 125" "length (replicate 125 ?p) = 125"
    by simp_all
  have v: "alarm_on_off initial_clock = OFF" "toggled OFF = ON"
    "gs_timeKeeper initial_clock = hhmm 0 0 0 0"
    "SET_A_SWITCH ?p"
    "time_set_rollover (add_pressed ?p (gs_timeKeeper initial_clock)) = hhmm 0 0 0 1"
    by (simp_all add: initial_clock_def toggled_def ON_def OFF_def zero_time_def hhmm_def
        released_def time_set_rollover_def add_pressed_def Let_def)
  from debounce_from_released [OF t74 hs h z, of released initial_clock] l(1,3,4)
  have a: "actions (replicate 74 ?t) initial_clock = 0"
    "alarm_on_off (run (map Millisecond (replicate 74 ?t)) initial_clock)
       = alarm_on_off initial_clock"
    "actions (replicate 125 ?p) initial_clock = 0"
    "gs_timeKeeper (run (map Millisecond (replicate 125 ?p)) initial_clock)
       = gs_timeKeeper initial_clock"
    "actions (replicate 125 ?p @ [?p]) initial_clock = 1"
    "gs_timeKeeper (run (map Millisecond (replicate 125 ?p @ [?p])) initial_clock)
       = (if \<not> SET_A_SWITCH ?p then gs_timeKeeper initial_clock
          else time_set_rollover (add_pressed ?p (gs_timeKeeper initial_clock)))"
    by blast+
  from debounce_from_released [OF t75 hs h z, of released initial_clock] l(2)
  have b: "actions (replicate 75 ?t) initial_clock = 1"
    "alarm_on_off (run (map Millisecond (replicate 75 ?t)) initial_clock)
       = toggled (alarm_on_off initial_clock)"
    by blast+
  have c: "gs_timeKeeper (run (map Millisecond (replicate 125 ?p @ [?p])) initial_clock)
       = hhmm 0 0 0 1"
    unfolding a(6) using v(4,5) by (simp only: not_True_eq_False if_False simp_thms)
  show ?thesis
    unfolding a(1,2,3,4,5) b c v(1,2,3) by simp
qed


end
